theory Spec2Isabelle
  imports Complex_Main "HOL-Library.AList"
begin

section \<open>Numbers and coordinates\<close>

text \<open>
  The TypeScript sources compute with JavaScript numbers.  They are modelled as real
  numbers: the functions below have the arithmetic of the source, without the rounding of
  IEEE doubles.  \<open>Infinity\<close> is kept where the source uses it, as the value of
  \<open>Math.min\<close> over no arguments and as the start value of a running minimum; NaN is
  kept where the source tests for it (parsed attributes, loaded records).
\<close>

record coord =
  lat :: real
  lon :: real

datatype number = Fin real | Infinity

text \<open>
  The order of these numbers, for \<open>a <= b\<close> and \<open>Math.min(a, b)\<close>: \<open>Infinity\<close>
  is the greatest.
\<close>

instantiation number :: linorder
begin

fun less_eq_number :: "number \<Rightarrow> number \<Rightarrow> bool" where
  "less_eq_number (Fin a) (Fin b) = (a \<le> b)"
| "less_eq_number (Fin a) Infinity = True"
| "less_eq_number Infinity (Fin b) = False"
| "less_eq_number Infinity Infinity = True"

definition less_number :: "number \<Rightarrow> number \<Rightarrow> bool" where
  "less_number a b = (a \<le> b \<and> \<not> b \<le> a)"

instance
proof
  fix x y z :: number
  show "(x < y) = (x \<le> y \<and> \<not> y \<le> x)"
    by (simp add: less_number_def)
  show "x \<le> x"
    by (cases x) simp_all
  show "x \<le> y \<Longrightarrow> y \<le> z \<Longrightarrow> x \<le> z"
    by (cases x; cases y; cases z) simp_all
  show "x \<le> y \<Longrightarrow> y \<le> x \<Longrightarrow> x = y"
    by (cases x; cases y) simp_all
  show "x \<le> y \<or> y \<le> x"
    by (cases x; cases y) auto
qed

end

text \<open>\<open>Math.min(...xs)\<close>: the minimum of the arguments, \<open>Infinity\<close> without any.\<close>

definition Math_min :: "real list \<Rightarrow> number" where
  "Math_min xs = fold (\<lambda>x m. min m (Fin x)) xs Infinity"

text \<open>\<open>Math.atan2(y, x)\<close>, the angle of the point \<open>(x, y)\<close>.\<close>

definition Math_atan2 :: "real \<Rightarrow> real \<Rightarrow> real" where
  "Math_atan2 y x =
     (if 0 < x then arctan (y / x)
      else if x < 0 \<and> 0 \<le> y then arctan (y / x) + pi
      else if x < 0 \<and> y < 0 then arctan (y / x) - pi
      else if 0 < y then pi / 2
      else if y < 0 then - (pi / 2)
      else 0)"

section \<open>Geometry (services/geoportail.ts)\<close>

text \<open>\<open>haversineDistance\<close>: great-circle distance in kilometres.\<close>

definition haversineDistance :: "coord \<Rightarrow> coord \<Rightarrow> real" where
  "haversineDistance point1 point2 =
     (let R = 6371;
          lat1 = (lat point1 * pi) / 180;
          lat2 = (lat point2 * pi) / 180;
          dLat = ((lat point2 - lat point1) * pi) / 180;
          dLon = ((lon point2 - lon point1) * pi) / 180;
          a = sin (dLat / 2) * sin (dLat / 2)
              + cos lat1 * cos lat2 * sin (dLon / 2) * sin (dLon / 2);
          c = 2 * Math_atan2 (sqrt a) (sqrt (1 - a))
      in R * c)"

text \<open>
  \<open>distancePointToSegment\<close>: the source starts the array \<open>distances\<close> with the
  distances to the two ends, pushes the distance to the midpoint and returns
  \<open>Math.min(...distances)\<close>.
\<close>

definition distancePointToSegment :: "coord \<Rightarrow> coord \<Rightarrow> coord \<Rightarrow> number" where
  "distancePointToSegment point segStart segEnd =
     (let distances = [haversineDistance point segStart, haversineDistance point segEnd];
          mid = \<lparr> lat = (lat segStart + lat segEnd) / 2, lon = (lon segStart + lon segEnd) / 2 \<rparr>;
          distances = distances @ [haversineDistance point mid]
      in Math_min distances)"

text \<open>
  GeoJSON as \<open>pointInPolygon\<close> reads it: an object whose \<open>type\<close> is \<open>Polygon\<close>
  carries \<open>coordinates\<close>, a list of rings; a \<open>Feature\<close> may carry a geometry; every
  other object is rejected.  A ring is a list of positions \<open>[x, y]\<close>.
\<close>

type_synonym ring = "(real \<times> real) list"

datatype geometry = Polygon "ring list" | OtherGeometry

datatype geojson = Geometry geometry | Feature "geometry option" | OtherObject

text \<open>
  The ray-casting loop \<open>for (let i = 0, j = exterior.length - 1; i < exterior.length; j = i++)\<close>
  with its state \<open>i\<close>, \<open>j\<close>, \<open>isInside\<close>.
\<close>

definition edge_intersect :: "real \<Rightarrow> real \<Rightarrow> real \<times> real \<Rightarrow> real \<times> real \<Rightarrow> bool" where
  "edge_intersect x y vi vj =
     (let xi = fst vi; yi = snd vi; xj = fst vj; yj = snd vj
      in (yi > y) \<noteq> (yj > y) \<and> x < ((xj - xi) * (y - yi)) / (yj - yi) + xi)"

function ray_loop :: "real \<Rightarrow> real \<Rightarrow> ring \<Rightarrow> nat \<Rightarrow> nat \<Rightarrow> bool \<Rightarrow> bool" where
  "ray_loop x y exterior i j isInside =
     (if i < length exterior
      then ray_loop x y exterior (i + 1) i
             (if edge_intersect x y (exterior ! i) (exterior ! j) then \<not> isInside else isInside)
      else isInside)"
  by pat_completeness auto
termination
  by (relation "measure (\<lambda>(x, y, exterior, i, j, isInside). length exterior - i)") auto

declare ray_loop.simps [simp del]

definition pointInPolygon :: "real \<times> real \<Rightarrow> geojson \<Rightarrow> bool" where
  "pointInPolygon point polygon =
     (case (case polygon of
              Geometry (Polygon cs) \<Rightarrow> Some cs
            | Feature (Some (Polygon cs)) \<Rightarrow> Some cs
            | _ \<Rightarrow> None) of
        None \<Rightarrow> False
      | Some coords \<Rightarrow>
          (case coords of
             [] \<Rightarrow> False
           | exterior # _ \<Rightarrow>
               ray_loop (fst point) (snd point) exterior 0 (length exterior - 1) False))"

text \<open>
  \<open>isLocationInSearchZone\<close>.  \<open>bufferPolygon\<close> is optional; an object is truthy, so
  the first branch is taken exactly when one is supplied.  The loop
  \<open>for (let i = 0; i < pathPoints.length - 1; i++)\<close> carries \<open>minDist\<close>; its bound is
  written \<open>i + 1 < length\<close> because the length may be 0.
\<close>

function zone_loop :: "coord \<Rightarrow> coord list \<Rightarrow> nat \<Rightarrow> number \<Rightarrow> number" where
  "zone_loop resultCoords pathPoints i minDist =
     (if i + 1 < length pathPoints
      then zone_loop resultCoords pathPoints (i + 1)
             (min minDist
                (distancePointToSegment resultCoords (pathPoints ! i) (pathPoints ! (i + 1))))
      else minDist)"
  by pat_completeness auto
termination
  by (relation "measure (\<lambda>(c, pathPoints, i, m). length pathPoints - i)") auto

declare zone_loop.simps [simp del]

definition isLocationInSearchZone ::
  "coord \<Rightarrow> coord list \<Rightarrow> real \<Rightarrow> geojson option \<Rightarrow> bool" where
  "isLocationInSearchZone resultCoords pathPoints searchDistanceKm bufferPolygon =
     (case bufferPolygon of
        Some polygon \<Rightarrow> pointInPolygon (lon resultCoords, lat resultCoords) polygon
      | None \<Rightarrow>
          (let minDist =
                 (if length pathPoints = 1
                  then Fin (haversineDistance resultCoords (pathPoints ! 0))
                  else zone_loop resultCoords pathPoints 0 Infinity)
           in minDist \<le> Fin searchDistanceKm))"


section \<open>Auxiliary definitions for the ray-casting loop\<close>

text \<open>
  The loop of \<open>pointInPolygon\<close> visits the edges \<open>(exterior[i], exterior[j])\<close> in the
  order of \<open>i\<close>.  \<open>ray_edges\<close> is the same loop over the list of vertices still to
  visit, with the previous vertex at hand, and \<open>crossings\<close> counts the edges that the
  ray crosses.
\<close>

fun ray_edges :: "real \<Rightarrow> real \<Rightarrow> real \<times> real \<Rightarrow> ring \<Rightarrow> bool \<Rightarrow> bool" where
  "ray_edges x y prev [] b = b"
| "ray_edges x y prev (v # vs) b =
     ray_edges x y v vs (if edge_intersect x y v prev then \<not> b else b)"

fun crossings :: "real \<Rightarrow> real \<Rightarrow> real \<times> real \<Rightarrow> ring \<Rightarrow> nat" where
  "crossings x y prev [] = 0"
| "crossings x y prev (v # vs) =
     (if edge_intersect x y v prev then 1 else 0) + crossings x y v vs"


section \<open>JavaScript values\<close>

text \<open>
  Values whose shape the source inspects at run time (records loaded from storage, parsed
  response bodies, the objects kept in the layers store) are JavaScript values.  An object
  is its list of properties in insertion order.
\<close>

datatype json =
    JUndefined
  | JNull
  | JBool bool
  | JNum real
  | JNaN
  | JStr string
  | JArr "json list"
  | JObj "(string \<times> json) list"

text \<open>Truthiness, as \<open>if (v)\<close>, \<open>!v\<close>, \<open>a && b\<close> and \<open>a || b\<close> test it.\<close>

fun truthy :: "json \<Rightarrow> bool" where
  "truthy JUndefined = False"
| "truthy JNull = False"
| "truthy (JBool b) = b"
| "truthy (JNum x) = (x \<noteq> 0)"
| "truthy JNaN = False"
| "truthy (JStr s) = (s \<noteq> [])"
| "truthy (JArr xs) = True"
| "truthy (JObj ps) = True"

fun typeof :: "json \<Rightarrow> string" where
  "typeof JUndefined = ''undefined''"
| "typeof JNull = ''object''"
| "typeof (JBool b) = ''boolean''"
| "typeof (JNum x) = ''number''"
| "typeof JNaN = ''number''"
| "typeof (JStr s) = ''string''"
| "typeof (JArr xs) = ''object''"
| "typeof (JObj ps) = ''object''"

fun Number_isNaN :: "json \<Rightarrow> bool" where
  "Number_isNaN JNaN = True"
| "Number_isNaN v = False"

text \<open>
  \<open>o.k\<close>: the property of an object, \<open>undefined\<close> when the object has none of that
  name and for a primitive value (none of the names the source reads is a built-in
  property of a string, a number or an array).  Reading a property of \<open>null\<close> or
  \<open>undefined\<close> raises a TypeError; the functions below do so only behind the guards of
  the source, and \<open>searchAddress\<close> models the raise itself.
\<close>

fun get_prop :: "json \<Rightarrow> string \<Rightarrow> json" where
  "get_prop (JObj ps) k = (case map_of ps k of Some v \<Rightarrow> v | None \<Rightarrow> JUndefined)"
| "get_prop v k = JUndefined"

text \<open>\<open>o.k = v\<close>: an existing property keeps its place, a new one is appended.\<close>

fun set_prop :: "json \<Rightarrow> string \<Rightarrow> json \<Rightarrow> json" where
  "set_prop (JObj ps) k v = JObj (AList.update k v ps)"
| "set_prop j k v = j"

text \<open>
  \<open>a === b\<close> on primitive values.  NaN equals nothing.  Two objects are equal only when
  they are the same object; object identity is not modelled, and the source compares ids
  and type tags, which are strings or \<open>undefined\<close>.
\<close>

fun strict_eq :: "json \<Rightarrow> json \<Rightarrow> bool" where
  "strict_eq JUndefined JUndefined = True"
| "strict_eq JNull JNull = True"
| "strict_eq (JBool a) (JBool b) = (a = b)"
| "strict_eq (JNum a) (JNum b) = (a = b)"
| "strict_eq (JStr a) (JStr b) = (a = b)"
| "strict_eq a b = False"

text \<open>\<open>a > 0\<close> for a value whose \<open>typeof\<close> is \<open>number\<close>.\<close>

fun greater_zero :: "json \<Rightarrow> bool" where
  "greater_zero (JNum x) = (x > 0)"
| "greater_zero v = False"

text \<open>\<open>{...a, ...b}\<close>: the properties of \<open>a\<close>, overwritten and extended by those of \<open>b\<close>.\<close>

fun own_props :: "json \<Rightarrow> (string \<times> json) list" where
  "own_props (JObj ps) = ps"
| "own_props v = []"

definition spread :: "json \<Rightarrow> json \<Rightarrow> json" where
  "spread a b = JObj (fold (\<lambda>(k, v) ps. AList.update k v ps) (own_props b) (own_props a))"

text \<open>\<open>xs.findIndex(p)\<close>; the source's \<open>-1\<close> is \<open>None\<close>.\<close>

fun findIndex :: "('a \<Rightarrow> bool) \<Rightarrow> 'a list \<Rightarrow> nat option" where
  "findIndex p [] = None"
| "findIndex p (x # xs) = (if p x then Some 0 else map_option Suc (findIndex p xs))"

section \<open>The layers store (stores/layers.ts)\<close>

text \<open>
  The store keeps the circles, line segments, points and notes as arrays of objects and
  the Leaflet ids in a map.  \<open>console.warn\<close> is modelled by the list \<open>warnings\<close> of the
  messages written so far.
\<close>

datatype warning =
    ReplacingWithNewNote json
  | ReplacingWithUpdatedNote json
  | InvalidCircle json
  | InvalidLineSegment json
  | InvalidPoint json
  | InvalidNote json

record layers =
  circles :: "json list"
  lineSegments :: "json list"
  points :: "json list"
  "notes" :: "json list"
  leafletIdMap :: "(string \<times> real) list"
  warnings :: "warning list"

text \<open>
  \<open>getElement\<close> returns the element object itself, which its callers then mutate.  The
  model returns where the element is: the array and the index of the first element whose
  \<open>id\<close> is the one asked for.
\<close>

datatype element_ref = CircleRef nat | LineSegmentRef nat | PointRef nat

definition getElement :: "layers \<Rightarrow> json \<Rightarrow> json \<Rightarrow> element_ref option" where
  "getElement s elementType elementId =
     (if elementType = JStr ''circle''
      then map_option CircleRef (findIndex (\<lambda>c. strict_eq (get_prop c ''id'') elementId) (circles s))
      else if elementType = JStr ''lineSegment''
      then map_option LineSegmentRef
             (findIndex (\<lambda>c. strict_eq (get_prop c ''id'') elementId) (lineSegments s))
      else if elementType = JStr ''point''
      then map_option PointRef (findIndex (\<lambda>c. strict_eq (get_prop c ''id'') elementId) (points s))
      else None)"

fun element_at :: "layers \<Rightarrow> element_ref \<Rightarrow> json" where
  "element_at s (CircleRef i) = circles s ! i"
| "element_at s (LineSegmentRef i) = lineSegments s ! i"
| "element_at s (PointRef i) = points s ! i"

text \<open>\<open>element.noteId = v\<close> for the element at a reference.\<close>

fun set_noteId :: "layers \<Rightarrow> element_ref \<Rightarrow> json \<Rightarrow> layers" where
  "set_noteId s (CircleRef i) v =
     s\<lparr>circles := (circles s)[i := set_prop (circles s ! i) ''noteId'' v]\<rparr>"
| "set_noteId s (LineSegmentRef i) v =
     s\<lparr>lineSegments := (lineSegments s)[i := set_prop (lineSegments s ! i) ''noteId'' v]\<rparr>"
| "set_noteId s (PointRef i) v =
     s\<lparr>points := (points s)[i := set_prop (points s ! i) ''noteId'' v]\<rparr>"

text \<open>
  \<open>addNote\<close>.  \<open>now\<close> is what \<open>Date.now()\<close> returns during the call.  The element link
  is set when the note has a type, an element id and an id of its own and the element
  exists; an element that already carries another note id is overwritten after a warning.
\<close>

definition addNote :: "real \<Rightarrow> json \<Rightarrow> layers \<Rightarrow> layers" where
  "addNote now note0 s =
     (let note1 = (if \<not> truthy (get_prop note0 ''createdAt'')
                   then set_prop note0 ''createdAt'' (JNum now) else note0);
          note = (if \<not> truthy (get_prop note1 ''updatedAt'')
                  then set_prop note1 ''updatedAt'' (JNum now) else note1);
          s1 = (if truthy (get_prop note ''linkedElementType'') \<and> truthy (get_prop note ''linkedElementId'')
                   \<and> truthy (get_prop note ''id'')
                then (case getElement s (get_prop note ''linkedElementType'') (get_prop note ''linkedElementId'') of
                        None \<Rightarrow> s
                      | Some r \<Rightarrow>
                          (let element = element_at s r;
                               s' = (if truthy (get_prop element ''noteId'')
                                        \<and> \<not> strict_eq (get_prop element ''noteId'') (get_prop note ''id'')
                                     then s\<lparr>warnings := warnings s
                                            @ [ReplacingWithNewNote (get_prop note ''linkedElementId'')]\<rparr>
                                     else s)
                           in set_noteId s' r (get_prop note ''id'')))
                else s)
      in s1\<lparr>notes := notes s1 @ [note]\<rparr>)"

text \<open>
  \<open>updateNote\<close>: the stored note is replaced by \<open>{...oldNote, ...note, updatedAt}\<close>;
  when the link changed, the old element loses its \<open>noteId\<close> if it is this note's, and the
  new element gets the id of the updated note.
\<close>

definition updateNote :: "real \<Rightarrow> json \<Rightarrow> json \<Rightarrow> layers \<Rightarrow> layers" where
  "updateNote now id' note s =
     (case findIndex (\<lambda>n. strict_eq (get_prop n ''id'') id') (notes s) of
        None \<Rightarrow> s
      | Some index \<Rightarrow>
          if \<not> truthy (notes s ! index) then s
          else
            (let oldNote = notes s ! index;
                 updatedNote = set_prop (spread oldNote note) ''updatedAt'' (JNum now);
                 oldElementId = get_prop oldNote ''linkedElementId'';
                 oldElementType = get_prop oldNote ''linkedElementType'';
                 newElementId = get_prop updatedNote ''linkedElementId'';
                 newElementType = get_prop updatedNote ''linkedElementType'';
                 s2 =
                   (if \<not> strict_eq oldElementId newElementId
                       \<or> \<not> strict_eq oldElementType newElementType
                    then
                      (let s1 =
                             (if truthy oldElementType \<and> truthy oldElementId
                              then (case getElement s oldElementType oldElementId of
                                      None \<Rightarrow> s
                                    | Some r \<Rightarrow>
                                        if strict_eq (get_prop (element_at s r) ''noteId'') id'
                                        then set_noteId s r JUndefined else s)
                              else s)
                       in if truthy newElementType \<and> truthy newElementId
                             \<and> truthy (get_prop updatedNote ''id'')
                          then (case getElement s1 newElementType newElementId of
                                  None \<Rightarrow> s1
                                | Some r \<Rightarrow>
                                    (let newElement = element_at s1 r;
                                         s' = (if truthy (get_prop newElement ''noteId'')
                                                  \<and> \<not> strict_eq (get_prop newElement ''noteId'')
                                                        (get_prop updatedNote ''id'')
                                               then s1\<lparr>warnings := warnings s1
                                                      @ [ReplacingWithUpdatedNote newElementId]\<rparr>
                                               else s1)
                                     in set_noteId s' r (get_prop updatedNote ''id'')))
                          else s1)
                    else s)
             in s2\<lparr>notes := (notes s2)[index := updatedNote]\<rparr>))"

text \<open>\<open>deleteNote\<close>: \<open>splice(index, 1)\<close> removes the note found.\<close>

definition deleteNote :: "json \<Rightarrow> layers \<Rightarrow> layers" where
  "deleteNote id' s =
     (case findIndex (\<lambda>n. strict_eq (get_prop n ''id'') id') (notes s) of
        None \<Rightarrow> s
      | Some index \<Rightarrow>
          (let note = notes s ! index;
               s1 = (if truthy note \<and> truthy (get_prop note ''linkedElementType'')
                        \<and> truthy (get_prop note ''linkedElementId'')
                     then (case getElement s (get_prop note ''linkedElementType'')
                                 (get_prop note ''linkedElementId'') of
                             None \<Rightarrow> s
                           | Some r \<Rightarrow>
                               if strict_eq (get_prop (element_at s r) ''noteId'') id'
                               then set_noteId s r JUndefined else s)
                     else s)
           in s1\<lparr>notes := take index (notes s1) @ drop (Suc index) (notes s1)\<rparr>))"

definition clearLayers :: "layers \<Rightarrow> layers" where
  "clearLayers s = s\<lparr>circles := [], lineSegments := [], points := [], notes := [],
                     leafletIdMap := []\<rparr>"

text \<open>
  The validators.  \<open>&&\<close> evaluates its right operand only when the left one is truthy, so
  no property of \<open>null\<close> or \<open>undefined\<close> is read; with \<open>get_prop\<close> total, the conjunction has
  the truth value of the source's chain.
\<close>

definition validateCircle :: "json \<Rightarrow> bool" where
  "validateCircle circle =
     (truthy circle
      \<and> typeof (get_prop circle ''id'') = ''string''
      \<and> typeof (get_prop circle ''name'') = ''string''
      \<and> truthy (get_prop circle ''center'')
      \<and> typeof (get_prop (get_prop circle ''center'') ''lat'') = ''number''
      \<and> typeof (get_prop (get_prop circle ''center'') ''lon'') = ''number''
      \<and> typeof (get_prop circle ''radius'') = ''number''
      \<and> \<not> Number_isNaN (get_prop (get_prop circle ''center'') ''lat'')
      \<and> \<not> Number_isNaN (get_prop (get_prop circle ''center'') ''lon'')
      \<and> \<not> Number_isNaN (get_prop circle ''radius'')
      \<and> greater_zero (get_prop circle ''radius''))"

definition validateLineSegment :: "json \<Rightarrow> bool" where
  "validateLineSegment segment =
     (if \<not> truthy segment
         \<or> typeof (get_prop segment ''id'') \<noteq> ''string''
         \<or> typeof (get_prop segment ''name'') \<noteq> ''string''
         \<or> \<not> truthy (get_prop segment ''center'')
         \<or> typeof (get_prop (get_prop segment ''center'') ''lat'') \<noteq> ''number''
         \<or> typeof (get_prop (get_prop segment ''center'') ''lon'') \<noteq> ''number''
         \<or> \<not> truthy (get_prop segment ''mode'')
      then False
      else if strict_eq (get_prop segment ''mode'') (JStr ''parallel'')
      then typeof (get_prop segment ''longitude'') = ''number''
           \<and> \<not> Number_isNaN (get_prop segment ''longitude'')
      else truthy (get_prop segment ''endpoint'')
           \<and> typeof (get_prop (get_prop segment ''endpoint'') ''lat'') = ''number''
           \<and> typeof (get_prop (get_prop segment ''endpoint'') ''lon'') = ''number''
           \<and> \<not> Number_isNaN (get_prop (get_prop segment ''endpoint'') ''lat'')
           \<and> \<not> Number_isNaN (get_prop (get_prop segment ''endpoint'') ''lon''))"

definition validatePoint :: "json \<Rightarrow> bool" where
  "validatePoint point =
     (truthy point
      \<and> typeof (get_prop point ''id'') = ''string''
      \<and> typeof (get_prop point ''name'') = ''string''
      \<and> truthy (get_prop point ''coordinates'')
      \<and> typeof (get_prop (get_prop point ''coordinates'') ''lat'') = ''number''
      \<and> typeof (get_prop (get_prop point ''coordinates'') ''lon'') = ''number''
      \<and> \<not> Number_isNaN (get_prop (get_prop point ''coordinates'') ''lat'')
      \<and> \<not> Number_isNaN (get_prop (get_prop point ''coordinates'') ''lon''))"

definition validateNote :: "json \<Rightarrow> bool" where
  "validateNote note =
     (truthy note
      \<and> typeof (get_prop note ''id'') = ''string''
      \<and> typeof (get_prop note ''title'') = ''string''
      \<and> typeof (get_prop note ''content'') = ''string'')"

text \<open>
  \<open>loadLayers\<close>.  Each array of the data is optional (\<open>data.circles || []\<close>) and is
  filtered by its validator; the callback of \<open>filter\<close> warns about every record it drops.
\<close>

record layer_data =
  data_circles :: "json list option"
  data_lineSegments :: "json list option"
  data_points :: "json list option"
  data_notes :: "json list option"

definition or_empty :: "json list option \<Rightarrow> json list" where
  "or_empty xs = (case xs of None \<Rightarrow> [] | Some ys \<Rightarrow> ys)"

definition skipped :: "(json \<Rightarrow> bool) \<Rightarrow> (json \<Rightarrow> warning) \<Rightarrow> json list \<Rightarrow> warning list" where
  "skipped isValid warn xs = map warn (filter (\<lambda>x. \<not> isValid x) xs)"

definition loadLayers :: "layer_data \<Rightarrow> layers \<Rightarrow> layers" where
  "loadLayers data s =
     (let s0 = clearLayers s;
          validCircles = filter validateCircle (or_empty (data_circles data));
          w1 = skipped validateCircle InvalidCircle (or_empty (data_circles data));
          validLineSegments = filter validateLineSegment (or_empty (data_lineSegments data));
          w2 = skipped validateLineSegment InvalidLineSegment (or_empty (data_lineSegments data));
          validPoints = filter validatePoint (or_empty (data_points data));
          w3 = skipped validatePoint InvalidPoint (or_empty (data_points data));
          validNotes = filter validateNote (or_empty (data_notes data));
          w4 = skipped validateNote InvalidNote (or_empty (data_notes data))
      in s0\<lparr>circles := validCircles, lineSegments := validLineSegments, points := validPoints,
            notes := validNotes, warnings := warnings s0 @ w1 @ w2 @ w3 @ w4\<rparr>)"

section \<open>The link invariant and example stores\<close>

text \<open>
  A note names an element by \<open>linkedElementType\<close> and \<open>linkedElementId\<close>;
  \<open>link_target\<close> is the element that \<open>getElement\<close> finds for them.
\<close>

definition link_target :: "layers \<Rightarrow> json \<Rightarrow> element_ref option" where
  "link_target s n =
     (if truthy (get_prop n ''linkedElementType'') \<and> truthy (get_prop n ''linkedElementId'')
      then getElement s (get_prop n ''linkedElementType'') (get_prop n ''linkedElementId'')
      else None)"

text \<open>
  Invariant I1 of the specification: for every note that links to an element, the
  \<open>noteId\<close> of that element is the id of the note; and no two notes of the store link
  to the same element.
\<close>

definition I1 :: "layers \<Rightarrow> bool" where
  "I1 s =
     (list_all (\<lambda>n. case link_target s n of
                      None \<Rightarrow> True
                    | Some r \<Rightarrow> strict_eq (get_prop (element_at s r) ''noteId'') (get_prop n ''id''))
        (notes s)
      \<and> distinct (List.map_filter (link_target s) (notes s)))"

text \<open>The note as \<open>addNote\<close> stores it, with the time stamps it lacked.\<close>

definition stamped :: "real \<Rightarrow> json \<Rightarrow> json" where
  "stamped now note0 =
     (let note1 = (if \<not> truthy (get_prop note0 ''createdAt'')
                   then set_prop note0 ''createdAt'' (JNum now) else note0)
      in (if \<not> truthy (get_prop note1 ''updatedAt'')
          then set_prop note1 ''updatedAt'' (JNum now) else note1))"

text \<open>The note that \<open>updateNote\<close> stores: \<open>{...oldNote, ...note, updatedAt: Date.now()}\<close>.\<close>

definition merged :: "real \<Rightarrow> json \<Rightarrow> json \<Rightarrow> json" where
  "merged now oldNote note = set_prop (spread oldNote note) ''updatedAt'' (JNum now)"

text \<open>
  Example records: a circle, a note linked to a circle, a store with one circle, the
  store after a note A was linked to the circle and after a second note B was linked to
  the same circle, and a store with two circles for re-linking a note.
\<close>

definition example_circle :: "string \<Rightarrow> real \<Rightarrow> json" where
  "example_circle i r =
     JObj [(''id'', JStr i), (''name'', JStr ''zone''),
           (''center'', JObj [(''lat'', JNum 48), (''lon'', JNum 2)]), (''radius'', JNum r)]"

definition example_note :: "string \<Rightarrow> string \<Rightarrow> json" where
  "example_note i e =
     JObj [(''id'', JStr i), (''title'', JStr ''t''), (''content'', JStr ''c''),
           (''linkedElementType'', JStr ''circle''), (''linkedElementId'', JStr e)]"

definition example_store :: layers where
  "example_store = \<lparr>circles = [example_circle ''e1'' 5], lineSegments = [], points = [],
                     notes = [], leafletIdMap = [], warnings = []\<rparr>"

definition store_A :: layers where
  "store_A = addNote 1 (example_note ''A'' ''e1'') example_store"

definition store_AB :: layers where
  "store_AB = addNote 2 (example_note ''B'' ''e1'') store_A"

definition store_two :: layers where
  "store_two = \<lparr>circles = [set_prop (example_circle ''e1'' 5) ''noteId'' (JStr ''A''),
                            example_circle ''e2'' 3],
     lineSegments = [], points = [],
     notes = [example_note ''A'' ''e1''], leafletIdMap = [], warnings = []\<rparr>"

definition relink_patch :: json where
  "relink_patch = JObj [(''linkedElementId'', JStr ''e2'')]"

text \<open>
  Records for loading: a point with a given latitude, a line segment of the mode
  \<open>parallel\<close>, and a batch with three circles of which one has the radius -1, two
  points of which one has the latitude NaN, a line segment, and two notes of which one is
  \<open>null\<close>.
\<close>

definition example_point :: "string \<Rightarrow> json \<Rightarrow> json" where
  "example_point i la =
     JObj [(''id'', JStr i), (''name'', JStr ''summit''),
           (''coordinates'', JObj [(''lat'', la), (''lon'', JNum 2)])]"

definition example_segment :: "string \<Rightarrow> json" where
  "example_segment i =
     JObj [(''id'', JStr i), (''name'', JStr ''meridian''),
           (''center'', JObj [(''lat'', JNum 48), (''lon'', JNum 2)]),
           (''mode'', JStr ''parallel''), (''longitude'', JNum 2)]"

definition example_batch :: layer_data where
  "example_batch =
     \<lparr>data_circles = Some [example_circle ''a'' 5, example_circle ''b'' (- 1), example_circle ''c'' 2],
      data_lineSegments = Some [example_segment ''s''],
      data_points = Some [example_point ''p'' (JNum 48), example_point ''q'' JNaN],
      data_notes = Some [JNull, example_note ''A'' ''a'']\<rparr>"

text \<open>A store that has been in use, to load the batch into.\<close>

definition used_store :: layers where
  "used_store =
     \<lparr>circles = [example_circle ''old'' 1], lineSegments = [],
      points = [example_point ''o'' (JNum 1)], notes = [example_note ''N'' ''old''],
      leafletIdMap = [(''circle_old'', 7)], warnings = [InvalidNote JNull]\<rparr>"

section \<open>Text completion search (services/geoportail.ts, searchAddress)\<close>

text \<open>
  What \<open>await fetch(...)\<close> gives: the promise rejects when no response arrives, or it
  resolves to a response.
\<close>

datatype 'r fetched = Rejects | Responds 'r

text \<open>
  A response of the completion service: its status, and the value that
  \<open>response.json()\<close> resolves to, \<open>None\<close> when the body is not JSON and the promise
  rejects.  \<open>response.ok\<close> holds for the statuses 200 to 299.
\<close>

record completion_response =
  status :: nat
  body_json :: "json option"

definition ok :: "nat \<Rightarrow> bool" where
  "ok st = (200 \<le> st \<and> st \<le> 299)"

text \<open>
  The errors of \<open>searchAddress\<close>.  The catch block wraps whatever was thrown inside the
  try block into \<open>new Error(`Failed to search address: ...`)\<close>.
\<close>

datatype search_error =
    FetchRejected
  | ApiError nat
  | BodyNotJson
  | TypeError
  | FailedToSearchAddress search_error

text \<open>
  \<open>query.trim()\<close> removes white space at both ends.  Characters are the code units below
  256; the white space among them is tab, line feed, vertical tab, form feed, carriage
  return, space and no-break space.
\<close>

definition is_white :: "char \<Rightarrow> bool" where
  "is_white c = (of_char c \<in> {9, 10, 11, 12, 13, 32, 160 :: nat})"

definition trim :: "string \<Rightarrow> string" where
  "trim s = rev (dropWhile is_white (rev (dropWhile is_white s)))"

text \<open>Reading a property of \<open>null\<close> or \<open>undefined\<close> raises a TypeError.\<close>

fun nullish :: "json \<Rightarrow> bool" where
  "nullish JUndefined = True"
| "nullish JNull = True"
| "nullish v = False"

fun Array_isArray :: "json \<Rightarrow> bool" where
  "Array_isArray (JArr xs) = True"
| "Array_isArray v = False"

fun elements :: "json \<Rightarrow> json list" where
  "elements (JArr xs) = xs"
| "elements v = []"

text \<open>The callback of \<open>data.results.map\<close>.\<close>

definition address_result :: "json \<Rightarrow> json" where
  "address_result result =
     JObj [(''main'', get_prop result ''fulltext''),
           (''secondary'', if truthy (get_prop result ''kind'') then get_prop result ''kind''
                           else JUndefined),
           (''coordinates'', JObj [(''lat'', get_prop result ''y''), (''lon'', get_prop result ''x'')]),
           (''type'', get_prop result ''kind'')]"

text \<open>
  \<open>searchAddress\<close>.  The request is determined by the query and the limit, and
  \<open>fetch\<close> is the service as the call finds it.  \<open>Inl\<close> is the error thrown to the
  caller, \<open>Inr\<close> the list returned.
\<close>

definition searchAddress ::
  "(string \<times> real \<Rightarrow> completion_response fetched) \<Rightarrow> string \<Rightarrow> real \<Rightarrow> search_error + json list" where
  "searchAddress fetch query limit =
     (if trim query = [] then Inr []
      else
        (case (case fetch (query, limit) of
                 Rejects \<Rightarrow> Inl FetchRejected
               | Responds response \<Rightarrow>
                   if \<not> ok (status response) then Inl (ApiError (status response))
                   else
                     (case body_json response of
                        None \<Rightarrow> Inl BodyNotJson
                      | Some data \<Rightarrow>
                          if nullish data then Inl TypeError
                          else if \<not> truthy (get_prop data ''results'')
                                  \<or> \<not> Array_isArray (get_prop data ''results'')
                          then Inr []
                          else if list_ex nullish (elements (get_prop data ''results''))
                          then Inl TypeError
                          else Inr (map address_result (elements (get_prop data ''results''))))) of
           Inl error \<Rightarrow> Inl (FailedToSearchAddress error)
         | Inr results \<Rightarrow> Inr results))"

text \<open>
  Services for examples: one answers every request with status 200 and a body that is not
  JSON, one with status 500, one with status 200 and a body without \<open>results\<close>, and one
  with status 200 and a body whose \<open>results\<close> hold one place.
\<close>

definition garbled_service :: "string \<times> real \<Rightarrow> completion_response fetched" where
  "garbled_service request = Responds \<lparr>status = 200, body_json = None\<rparr>"

definition failing_service :: "string \<times> real \<Rightarrow> completion_response fetched" where
  "failing_service request = Responds \<lparr>status = 500, body_json = Some (JObj [])\<rparr>"

definition plain_service :: "string \<times> real \<Rightarrow> completion_response fetched" where
  "plain_service request = Responds \<lparr>status = 200, body_json = Some (JObj [(''type'', JStr ''none'')])\<rparr>"

definition paris_result :: json where
  "paris_result =
     JObj [(''fulltext'', JStr ''Paris''), (''kind'', JStr ''city''),
           (''x'', JNum 2), (''y'', JNum 49)]"

definition paris_service :: "string \<times> real \<Rightarrow> completion_response fetched" where
  "paris_service request =
     Responds \<lparr>status = 200, body_json = Some (JObj [(''results'', JArr [paris_result])])\<rparr>"

section \<open>Feature search: the scan of the response (services/geoportail.ts)\<close>

record AddressSearchResult =
  main :: string
  secondary :: "string option"
  coordinates :: coord
  type :: "string option"
  elevation :: "real option"

text \<open>
  The Overpass response as the scan reads it.  A \<open>node\<close> element has the attributes
  \<open>lat\<close> and \<open>lon\<close> (each may be missing) and \<open>tag\<close> children; a \<open>way\<close> element may have
  a \<open>center\<close> child with these attributes.  A tag is its attribute \<open>k\<close> with its
  attribute \<open>v\<close>, which may be missing.
\<close>

type_synonym xml_tags = "(string \<times> string option) list"

record xml_node =
  node_lat :: "string option"
  node_lon :: "string option"
  node_tags :: xml_tags

record xml_center =
  center_lat :: "string option"
  center_lon :: "string option"

record xml_way =
  way_center :: "xml_center option"
  way_tags :: xml_tags

record xml_document =
  nodes :: "xml_node list"
  ways :: "xml_way list"

text \<open>
  \<open>element.querySelector('tag[k="..."]')?.getAttribute('v')\<close>: the attribute \<open>v\<close> of the
  first tag with that \<open>k\<close>; \<open>None\<close> is \<open>null\<close> or \<open>undefined\<close>.
\<close>

definition tag_value :: "xml_tags \<Rightarrow> string \<Rightarrow> string option" where
  "tag_value tags key = (case find (\<lambda>t. fst t = key) tags of None \<Rightarrow> None | Some t \<Rightarrow> snd t)"

text \<open>Truthiness of a string that may be missing, and \<open>a || b\<close> on such strings.\<close>

definition truthy_string :: "string option \<Rightarrow> bool" where
  "truthy_string a = (case a of None \<Rightarrow> False | Some s \<Rightarrow> s \<noteq> [])"

definition or_else :: "string option \<Rightarrow> string option \<Rightarrow> string option" where
  "or_else a b = (if truthy_string a then a else b)"

definition getTypeValueFromElement :: "xml_tags \<Rightarrow> string" where
  "getTypeValueFromElement tags =
     (case or_else (tag_value tags ''place'')
            (or_else (tag_value tags ''amenity'')
              (or_else (tag_value tags ''tourism'')
                (or_else (tag_value tags ''natural'')
                  (or_else (tag_value tags ''historic'') (Some ''''))))) of
        None \<Rightarrow> ''''
      | Some s \<Rightarrow> s)"

text \<open>
  The results map.  Its key is the string \<open>`${name}_${lon}_${lat}`\<close>; a number prints
  without an underscore and two different numbers print differently, so the string
  determines the triple and the triple is the key here.  The map keeps the order of
  insertion.
\<close>

type_synonym result_key = "string \<times> real \<times> real"

definition addLocationToResults ::
  "(result_key \<times> AddressSearchResult) list \<Rightarrow> string \<Rightarrow> real \<Rightarrow> real \<Rightarrow> string
     \<Rightarrow> (result_key \<times> AddressSearchResult) list" where
  "addLocationToResults results name lon' lat' typeValue =
     (let key = (name, lon', lat')
      in if map_of results key = None
         then results @ [(key, \<lparr>main = name,
                                 secondary = (if typeValue \<noteq> [] then Some typeValue else None),
                                 coordinates = \<lparr>lat = lat', lon = lon'\<rparr>,
                                 type = (if typeValue \<noteq> [] then Some typeValue else None),
                                 elevation = None\<rparr>)]
         else results)"

text \<open>
  \<open>Number.parseFloat\<close> is a parameter: a function from the attribute string to the
  number read, \<open>None\<close> for NaN.  A missing or empty attribute is read as \<open>'0'\<close>.
\<close>

definition attribute_or_zero :: "string option \<Rightarrow> string" where
  "attribute_or_zero a = (case a of None \<Rightarrow> ''0'' | Some s \<Rightarrow> if s = [] then ''0'' else s)"

text \<open>Truthiness of a parsed number: NaN and 0 are falsy.\<close>

definition truthy_number :: "real option \<Rightarrow> bool" where
  "truthy_number x = (case x of None \<Rightarrow> False | Some v \<Rightarrow> v \<noteq> 0)"

text \<open>\<open>processXmlNodes\<close>: the loop over \<open>doc.querySelectorAll('node')\<close>.\<close>

definition processXmlNodes ::
  "(string \<Rightarrow> real option) \<Rightarrow> xml_document \<Rightarrow> (result_key \<times> AddressSearchResult) list
     \<Rightarrow> coord list \<Rightarrow> real \<Rightarrow> geojson option \<Rightarrow> (result_key \<times> AddressSearchResult) list" where
  "processXmlNodes parseFloat doc results pathPoints searchDistanceKm bufferPolygon =
     fold (\<lambda>node results.
             (let lat' = parseFloat (attribute_or_zero (node_lat node));
                  lon' = parseFloat (attribute_or_zero (node_lon node));
                  name = tag_value (node_tags node) ''name'';
                  typeValue = getTypeValueFromElement (node_tags node)
              in if truthy_string name \<and> truthy_number lat' \<and> truthy_number lon'
                 then (let resultCoords = \<lparr>lat = the lat', lon = the lon'\<rparr>
                       in if isLocationInSearchZone resultCoords pathPoints searchDistanceKm
                               bufferPolygon
                          then addLocationToResults results (the name) (the lon') (the lat') typeValue
                          else results)
                 else results))
       (nodes doc) results"

text \<open>\<open>processXmlWays\<close>: the loop over \<open>doc.querySelectorAll('way')\<close>.\<close>

definition processXmlWays ::
  "(string \<Rightarrow> real option) \<Rightarrow> xml_document \<Rightarrow> (result_key \<times> AddressSearchResult) list
     \<Rightarrow> coord list \<Rightarrow> real \<Rightarrow> geojson option \<Rightarrow> (result_key \<times> AddressSearchResult) list" where
  "processXmlWays parseFloat doc results pathPoints searchDistanceKm bufferPolygon =
     fold (\<lambda>way results.
             (case way_center way of
                None \<Rightarrow> results
              | Some centerTag \<Rightarrow>
                  (let lat' = parseFloat (attribute_or_zero (center_lat centerTag));
                       lon' = parseFloat (attribute_or_zero (center_lon centerTag));
                       name = tag_value (way_tags way) ''name'';
                       typeValue = getTypeValueFromElement (way_tags way)
                   in if truthy_string name \<and> truthy_number lat' \<and> truthy_number lon'
                      then (let resultCoords = \<lparr>lat = the lat', lon = the lon'\<rparr>
                            in if isLocationInSearchZone resultCoords pathPoints searchDistanceKm
                                    bufferPolygon
                               then addLocationToResults results (the name) (the lon') (the lat')
                                      typeValue
                               else results)
                      else results)))
       (ways doc) results"

text \<open>
  A node, or the center of a way, lies on the equator or on the prime meridian when its
  parsed latitude or its parsed longitude is exactly 0.
\<close>

definition on_axis :: "(string \<Rightarrow> real option) \<Rightarrow> string option \<Rightarrow> string option \<Rightarrow> bool" where
  "on_axis parseFloat lat_attribute lon_attribute =
     (parseFloat (attribute_or_zero lat_attribute) = Some 0
      \<or> parseFloat (attribute_or_zero lon_attribute) = Some 0)"

definition node_on_axis :: "(string \<Rightarrow> real option) \<Rightarrow> xml_node \<Rightarrow> bool" where
  "node_on_axis parseFloat node = on_axis parseFloat (node_lat node) (node_lon node)"

definition way_on_axis :: "(string \<Rightarrow> real option) \<Rightarrow> xml_way \<Rightarrow> bool" where
  "way_on_axis parseFloat way =
     (case way_center way of
        None \<Rightarrow> False
      | Some centerTag \<Rightarrow> on_axis parseFloat (center_lat centerTag) (center_lon centerTag))"

text \<open>An entry of the results map whose coordinates are both different from 0.\<close>

definition off_axis :: "(result_key \<times> AddressSearchResult) \<Rightarrow> bool" where
  "off_axis entry = (lat (coordinates (snd entry)) \<noteq> 0 \<and> lon (coordinates (snd entry)) \<noteq> 0)"


section \<open>Elevation lookup (services/geoportail.ts, fetchElevations)\<close>

text \<open>
  The functions of the platform that turn numbers into strings and strings into numbers
  or documents are parameters of the model: \<open>x.toFixed(n)\<close>, the conversion of a number
  in a template string, \<open>Number.parseFloat\<close> and the XML parser, which gives \<open>None\<close> for
  a document whose root is \<open>parsererror\<close>.
\<close>

record platform =
  toFixed :: "nat \<Rightarrow> real \<Rightarrow> string"
  number_toString :: "real \<Rightarrow> string"
  parseFloat :: "string \<Rightarrow> real option"
  parseFromString :: "string \<Rightarrow> xml_document option"

text \<open>\<open>Math.round(x)\<close> and \<open>Math.ceil(n / 2)\<close> for a length \<open>n\<close>.\<close>

definition Math_round :: "real \<Rightarrow> real" where
  "Math_round x = of_int \<lfloor>x + 1 / 2\<rfloor>"

definition ceil_half :: "nat \<Rightarrow> nat" where
  "ceil_half n = (n + 1) div 2"

text \<open>
  A response of the elevation service.  Its body is not JSON, or it is an object whose
  \<open>results\<close> may be missing; a result carries the coordinates it is for and an elevation
  that may be \<open>null\<close>.
\<close>

record elevation_result =
  latitude :: real
  longitude :: real
  result_elevation :: "real option"

datatype elevation_body = NotJson | Body "elevation_result list option"

record elevation_response =
  elevation_status :: nat
  elevation_body :: elevation_body

text \<open>
  The state of one call of \<open>fetchElevations\<close>: the map under construction, the
  coordinate batches posted so far in the order of the requests, and what was written
  with \<open>console.warn\<close>.
\<close>

datatype elevation_warning =
    PayloadTooLarge nat
  | ElevationApiError nat
  | ErrorFetchingElevation

record elevation_state =
  elevationMap :: "(string \<times> real) list"
  sent :: "coord list list"
  console_warn :: "elevation_warning list"

text \<open>The three key formats.\<close>

definition key_fixed :: "platform \<Rightarrow> nat \<Rightarrow> real \<Rightarrow> real \<Rightarrow> string" where
  "key_fixed js n la lo = toFixed js n la @ ''_'' @ toFixed js n lo"

definition key_rounded :: "platform \<Rightarrow> real \<Rightarrow> real \<Rightarrow> string" where
  "key_rounded js la lo =
     number_toString js (Math_round (la * 1000000) / 1000000) @ ''_''
       @ number_toString js (Math_round (lo * 1000000) / 1000000)"

text \<open>The body of the loop over \<open>data.results\<close>.\<close>

definition store_elevation ::
  "platform \<Rightarrow> (string \<times> nat) list \<Rightarrow> elevation_result \<Rightarrow> elevation_state \<Rightarrow> elevation_state" where
  "store_elevation js coordIndex result st =
     (case result_elevation result of
        None \<Rightarrow> st
      | Some elevation' \<Rightarrow>
          (let keys = [key_fixed js 6 (latitude result) (longitude result),
                       key_fixed js 5 (latitude result) (longitude result),
                       key_rounded js (latitude result) (longitude result)]
           in case find (\<lambda>key. map_of coordIndex key \<noteq> None) keys of
                None \<Rightarrow> st
              | Some foundKey \<Rightarrow>
                  if foundKey \<noteq> []
                  then st\<lparr>elevationMap := AList.update foundKey (Math_round elevation') (elevationMap st)\<rparr>
                  else st))"

text \<open>
  \<open>fetchWithRetry\<close>.  The service is a function of the batches posted so far, the
  current one last, so that it may answer the same batch differently at different times.
  The two recursive calls run one after the other, the second on the state the first one
  leaves.
\<close>

function fetchWithRetry ::
  "platform \<Rightarrow> (coord list list \<Rightarrow> elevation_response fetched) \<Rightarrow> (string \<times> nat) list
     \<Rightarrow> coord list \<Rightarrow> nat \<Rightarrow> elevation_state \<Rightarrow> elevation_state" where
  "fetchWithRetry js api coordIndex coords iteration st =
     (if coords = [] \<or> iteration \<ge> 5 then st
      else
        (let st1 = st\<lparr>sent := sent st @ [coords]\<rparr>
         in case api (sent st1) of
              Rejects \<Rightarrow> st1\<lparr>console_warn := console_warn st1 @ [ErrorFetchingElevation]\<rparr>
            | Responds response \<Rightarrow>
                if \<not> ok (elevation_status response)
                then
                  (if elevation_status response = 413 \<and> iteration < 5
                   then
                     (let st2 = st1\<lparr>console_warn := console_warn st1
                                       @ [PayloadTooLarge (iteration + 1)]\<rparr>;
                          mid = ceil_half (length coords);
                          batch1 = take mid coords;
                          batch2 = drop mid coords;
                          st3 = fetchWithRetry js api coordIndex batch1 (iteration + 1) st2
                      in fetchWithRetry js api coordIndex batch2 (iteration + 1) st3)
                   else st1\<lparr>console_warn := console_warn st1
                              @ [ElevationApiError (elevation_status response)]\<rparr>)
                else
                  (case elevation_body response of
                     NotJson \<Rightarrow> st1\<lparr>console_warn := console_warn st1 @ [ErrorFetchingElevation]\<rparr>
                   | Body None \<Rightarrow> st1
                   | Body (Some results) \<Rightarrow> fold (store_elevation js coordIndex) results st1)))"
  by pat_completeness auto
termination
  by (relation "measure (\<lambda>(js, api, coordIndex, coords, iteration, st). 5 - iteration)") auto

declare fetchWithRetry.simps [simp del]

text \<open>
  \<open>fetchElevations\<close>: the index of the input coordinates by their 6-decimal key, then
  \<open>fetchWithRetry(coordinates)\<close> from the empty map.
\<close>

definition fetchElevations ::
  "platform \<Rightarrow> (coord list list \<Rightarrow> elevation_response fetched) \<Rightarrow> coord list \<Rightarrow> elevation_state" where
  "fetchElevations js api coordinates' =
     (let st0 = \<lparr>elevationMap = [], sent = [], console_warn = []\<rparr>
      in if coordinates' = [] then st0
         else
           (let coordIndex =
                  fold (\<lambda>(index, coord) m. AList.update (key_fixed js 6 (lat coord) (lon coord)) index m)
                    (enumerate 0 coordinates') []
            in fetchWithRetry js api coordIndex coordinates' 0 st0))"

text \<open>A service that answers every request with the status 413.\<close>

definition always_413 :: "(coord list list \<Rightarrow> elevation_response fetched) \<Rightarrow> bool" where
  "always_413 api =
     (\<forall>history. case api history of
                  Rejects \<Rightarrow> False
                | Responds response \<Rightarrow> elevation_status response = 413)"

definition too_large :: "coord list list \<Rightarrow> elevation_response fetched" where
  "too_large history = Responds \<lparr>elevation_status = 413, elevation_body = NotJson\<rparr>"

definition plain_platform :: platform where
  "plain_platform = \<lparr>toFixed = (\<lambda>n x. ''x''), number_toString = (\<lambda>x. ''x''),
                      parseFloat = (\<lambda>s. if s = ''0'' then Some 0 else if s = ''1'' then Some 1 else None),
                      parseFromString = (\<lambda>s. None)\<rparr>"

text \<open>
  The warning of a request that was answered with 413 at a depth from \<open>iteration\<close> on:
  it names the next depth, which is at most 5.
\<close>

definition retry_warning :: "nat \<Rightarrow> elevation_warning \<Rightarrow> bool" where
  "retry_warning iteration w = (case w of PayloadTooLarge k \<Rightarrow> iteration < k \<and> k \<le> 5 | _ \<Rightarrow> False)"

text \<open>
  The requests of the specification for a service that always answers 413: a batch that
  is not empty is posted, then its first half is treated in the same way, then its second
  half, down to the given depth.  \<open>depth_warnings\<close> lists the warnings for these
  requests.
\<close>

fun halves :: "nat \<Rightarrow> coord list \<Rightarrow> coord list list" where
  "halves 0 coords = []"
| "halves (Suc depth) coords =
     (if coords = [] then []
      else coords # halves depth (take (ceil_half (length coords)) coords)
             @ halves depth (drop (ceil_half (length coords)) coords))"

fun depth_warnings :: "nat \<Rightarrow> nat \<Rightarrow> coord list \<Rightarrow> elevation_warning list" where
  "depth_warnings 0 iteration coords = []"
| "depth_warnings (Suc depth) iteration coords =
     (if coords = [] then []
      else PayloadTooLarge (iteration + 1)
             # depth_warnings depth (iteration + 1) (take (ceil_half (length coords)) coords)
             @ depth_warnings depth (iteration + 1) (drop (ceil_half (length coords)) coords))"


section \<open>The request queue (services/geoportail.ts, class RequestQueue)\<close>

text \<open>
  JavaScript runs one piece of code at a time; an async function runs until it reaches an
  \<open>await\<close> and continues later, when the promise it waits for has settled.  The queue is
  therefore a state machine.  Its state holds the fields of the class, the calls of
  \<open>processQueue\<close> that have not returned yet, each at the \<open>await\<close> where it waits, and a
  record of what has happened: the tasks given to \<open>add\<close> in the order of the calls (the
  promise returned by call number \<open>k\<close>, counted from 0, is promise \<open>k\<close>), the tasks
  whose \<open>requestFn\<close> was invoked, in the order of the invocations, and the promises
  settled so far, each with the task whose outcome settled it and with its value.
\<close>

text \<open>
  What a task throws or rejects with is an \<open>Error\<close> or some other value; \<open>rejectItem\<close>
  gets \<open>error instanceof Error ? error : new Error(String(error))\<close>.
\<close>

datatype thrown = AnError string | NotAnError string

fun as_error :: "thrown \<Rightarrow> thrown" where
  "as_error (AnError message) = AnError message"
| "as_error (NotAnError text) = AnError text"

text \<open>
  A call of \<open>processQueue\<close> waits for the wrapped function it took from the queue.  That
  function waits for its timer (\<open>AwaitDelay\<close>) or for the task (\<open>AwaitTask\<close>), holding
  the task and the numbers of the promises that its \<open>resolveItem\<close> and \<open>rejectItem\<close>
  settle; or it has returned or thrown and \<open>processQueue\<close> is about to continue
  (\<open>AwaitClosure\<close>).
\<close>

datatype 't drain = AwaitDelay 't nat nat | AwaitTask 't nat nat | AwaitClosure

record ('t, 'r) request_queue =
  queue :: "'t list"
  isProcessing :: bool
  lastRequestTime :: int
  resolveStack :: "nat list"
  rejectStack :: "nat list"
  drains :: "'t drain list"
  added :: "'t list"
  dispatched :: "'t list"
  settled :: "(nat \<times> 't \<times> (thrown + 'r)) list"

definition minDelayMs :: int where
  "minDelayMs = 50"

definition new_queue :: "('t, 'r) request_queue" where
  "new_queue = \<lparr>queue = [], isProcessing = False, lastRequestTime = 0, resolveStack = [],
                 rejectStack = [], drains = [], added = [], dispatched = [], settled = []\<rparr>"

text \<open>Settling a promise; a promise that is settled already stays as it is.\<close>

definition settle ::
  "nat \<Rightarrow> 't \<Rightarrow> thrown + 'r \<Rightarrow> ('t, 'r) request_queue \<Rightarrow> ('t, 'r) request_queue" where
  "settle p requestFn v q =
     (if map_of (settled q) p = None then q\<lparr>settled := settled q @ [(p, requestFn, v)]\<rparr> else q)"

text \<open>
  The wrapped function from \<open>lastRequestTime = Date.now()\<close> on: the task is invoked and
  awaited.
\<close>

definition dispatch ::
  "'t \<Rightarrow> nat \<Rightarrow> nat \<Rightarrow> int \<Rightarrow> nat \<Rightarrow> ('t, 'r) request_queue \<Rightarrow> ('t, 'r) request_queue" where
  "dispatch requestFn resolveItem rejectItem now d q =
     q\<lparr>lastRequestTime := now,
       dispatched := dispatched q @ [requestFn],
       drains := (drains q)[d := AwaitTask requestFn resolveItem rejectItem]\<rparr>"

text \<open>
  The wrapped function up to its first \<open>await\<close>, called by the drain \<open>d\<close> at the time
  \<open>now\<close>: it takes the first entries of the two stacks, throws when one is missing, and
  waits for the rest of the minimum delay or invokes the task at once.
\<close>

definition start_closure ::
  "'t \<Rightarrow> int \<Rightarrow> nat \<Rightarrow> ('t, 'r) request_queue \<Rightarrow> ('t, 'r) request_queue" where
  "start_closure requestFn now d q =
     (let resolveItem = (case resolveStack q of [] \<Rightarrow> None | p # ps \<Rightarrow> Some p);
          rejectItem = (case rejectStack q of [] \<Rightarrow> None | p # ps \<Rightarrow> Some p);
          q1 = q\<lparr>resolveStack := tl (resolveStack q), rejectStack := tl (rejectStack q)\<rparr>
      in case resolveItem of
           None \<Rightarrow> q1\<lparr>drains := (drains q1)[d := AwaitClosure]\<rparr>
         | Some res \<Rightarrow>
             (case rejectItem of
                None \<Rightarrow> q1\<lparr>drains := (drains q1)[d := AwaitClosure]\<rparr>
              | Some rej \<Rightarrow>
                  if now - lastRequestTime q1 < minDelayMs
                  then q1\<lparr>drains := (drains q1)[d := AwaitDelay requestFn res rej]\<rparr>
                  else dispatch requestFn res rej now d q1))"

text \<open>
  The head of the \<open>while\<close> loop of \<open>processQueue\<close> for the drain \<open>d\<close>: the next wrapped
  function is taken from the queue and called, or the loop ends and \<open>isProcessing\<close> is
  reset.
\<close>

definition loop :: "int \<Rightarrow> nat \<Rightarrow> ('t, 'r) request_queue \<Rightarrow> ('t, 'r) request_queue" where
  "loop now d q =
     (case queue q of
        [] \<Rightarrow> q\<lparr>isProcessing := False, drains := take d (drains q) @ drop (Suc d) (drains q)\<rparr>
      | requestFn # rest \<Rightarrow> start_closure requestFn now d (q\<lparr>queue := rest\<rparr>))"

definition processQueue :: "int \<Rightarrow> ('t, 'r) request_queue \<Rightarrow> ('t, 'r) request_queue" where
  "processQueue now q =
     (if isProcessing q \<or> queue q = [] then q
      else loop now (length (drains q)) (q\<lparr>isProcessing := True, drains := drains q @ [AwaitClosure]\<rparr>))"

text \<open>\<open>add\<close>, called at the time \<open>now\<close>; the promise it returns is the next number.\<close>

definition add :: "'t \<Rightarrow> int \<Rightarrow> ('t, 'r) request_queue \<Rightarrow> ('t, 'r) request_queue" where
  "add requestFn now q =
     (let p = length (added q);
          q1 = q\<lparr>resolveStack := resolveStack q @ [p],
                 rejectStack := rejectStack q @ [p],
                 queue := queue q @ [requestFn],
                 added := added q @ [requestFn]\<rparr>
      in if \<not> isProcessing q1 then processQueue now q1 else q1)"

text \<open>
  What can happen: a call of \<open>add\<close>; the timer of a drain fires; the task that a drain
  waits for settles, with an error or a result; a drain whose wrapped function is done
  continues.  An event that the state does not allow gives \<open>None\<close>.
\<close>

datatype ('t, 'r) event =
    Add 't int
  | TimerFires nat int
  | TaskSettles nat "thrown + 'r"
  | Resumes nat int

fun fire :: "('t, 'r) event \<Rightarrow> ('t, 'r) request_queue \<Rightarrow> ('t, 'r) request_queue option" where
  "fire (Add requestFn now) q = Some (add requestFn now q)"
| "fire (TimerFires d now) q =
     (if d < length (drains q)
      then (case drains q ! d of
              AwaitDelay requestFn res rej \<Rightarrow> Some (dispatch requestFn res rej now d q)
            | AwaitTask requestFn res rej \<Rightarrow> None
            | AwaitClosure \<Rightarrow> None)
      else None)"
| "fire (TaskSettles d v) q =
     (if d < length (drains q)
      then (case drains q ! d of
              AwaitDelay requestFn res rej \<Rightarrow> None
            | AwaitTask requestFn res rej \<Rightarrow>
                Some ((case v of
                         Inr result \<Rightarrow> settle res requestFn (Inr result) q
                       | Inl error \<Rightarrow> settle rej requestFn (Inl (as_error error)) q)
                      \<lparr>drains := (drains q)[d := AwaitClosure]\<rparr>)
            | AwaitClosure \<Rightarrow> None)
      else None)"
| "fire (Resumes d now) q =
     (if d < length (drains q)
      then (case drains q ! d of
              AwaitDelay requestFn res rej \<Rightarrow> None
            | AwaitTask requestFn res rej \<Rightarrow> None
            | AwaitClosure \<Rightarrow> Some (loop now d q))
      else None)"

fun run :: "('t, 'r) event list \<Rightarrow> ('t, 'r) request_queue \<Rightarrow> ('t, 'r) request_queue option" where
  "run [] q = Some q"
| "run (e # es) q = (case fire e q of None \<Rightarrow> None | Some q' \<Rightarrow> run es q')"

fun is_Add :: "('t, 'r) event \<Rightarrow> bool" where
  "is_Add (Add requestFn now) = True"
| "is_Add e = False"

text \<open>
  The work that remains in a state: three steps for every queued function, and for a
  drain the steps up to the end of its current turn of the loop.
\<close>

fun drain_rank :: "'t drain \<Rightarrow> nat" where
  "drain_rank (AwaitDelay requestFn res rej) = 3"
| "drain_rank (AwaitTask requestFn res rej) = 2"
| "drain_rank AwaitClosure = 1"

definition remaining :: "('t, 'r) request_queue \<Rightarrow> nat" where
  "remaining q = 3 * length (queue q) + sum_list (map drain_rank (drains q))"


section \<open>The invariant of the request queue\<close>

text \<open>
  In every state that the queue reaches, \<open>c\<close> wrapped functions have been taken from the
  queue: the queue holds the tasks added after them, the stacks hold the numbers of their
  promises, and the promises settled so far are the first ones, in order and each by its
  own task.  There is at most one drain, and it works on task number \<open>c - 1\<close>.
\<close>

definition drain_ok :: "('t, 'r) request_queue \<Rightarrow> nat \<Rightarrow> 't drain \<Rightarrow> bool" where
  "drain_ok q c d =
     (case d of
        AwaitDelay requestFn res rej \<Rightarrow>
          0 < c \<and> res = c - 1 \<and> rej = c - 1 \<and> requestFn = added q ! (c - 1)
          \<and> dispatched q = take (c - 1) (added q) \<and> length (settled q) = c - 1
      | AwaitTask requestFn res rej \<Rightarrow>
          0 < c \<and> res = c - 1 \<and> rej = c - 1 \<and> requestFn = added q ! (c - 1)
          \<and> dispatched q = take c (added q) \<and> length (settled q) = c - 1
      | AwaitClosure \<Rightarrow>
          dispatched q = take c (added q) \<and> length (settled q) = c)"

definition queue_inv :: "('t, 'r) request_queue \<Rightarrow> nat \<Rightarrow> bool" where
  "queue_inv q c =
     (c \<le> length (added q)
      \<and> queue q = drop c (added q)
      \<and> resolveStack q = [c..<length (added q)]
      \<and> rejectStack q = [c..<length (added q)]
      \<and> map fst (settled q) = [0..<length (settled q)]
      \<and> map (fst \<circ> snd) (settled q) = take (length (settled q)) (added q)
      \<and> length (settled q) \<le> c
      \<and> (case drains q of
            [] \<Rightarrow> \<not> isProcessing q \<and> c = length (added q) \<and> dispatched q = added q
                  \<and> length (settled q) = length (added q)
          | d # ds \<Rightarrow> ds = [] \<and> isProcessing q \<and> drain_ok q c d))"

text \<open>
  The outcomes of the tasks in a sequence of events, in the order in which the tasks
  settled.
\<close>

fun outcomes :: "('t, 'r) event list \<Rightarrow> (thrown + 'r) list" where
  "outcomes [] = []"
| "outcomes (TaskSettles d v # es) = v # outcomes es"
| "outcomes (e # es) = outcomes es"

text \<open>
  An example run: two tasks are added, the first is rejected, the second is dispatched
  after the delay and resolves.
\<close>

definition example_events :: "(string, nat) event list" where
  "example_events =
     [Add ''first'' 1000, Add ''second'' 1001, TaskSettles 0 (Inl (NotAnError ''boom'')),
      Resumes 0 1002, TimerFires 0 1051, TaskSettles 0 (Inr 7), Resumes 0 1060]"

definition example_final :: "(string, nat) request_queue" where
  "example_final =
     \<lparr>queue = [], isProcessing = False, lastRequestTime = 1051, resolveStack = [],
      rejectStack = [], drains = [], added = [''first'', ''second''],
      dispatched = [''first'', ''second''],
      settled = [(0, ''first'', Inl (AnError ''boom'')), (1, ''second'', Inr 7)]\<rparr>"

text \<open>The state of that run after the two calls of \<open>add\<close>, with the first task in flight.\<close>

definition example_middle :: "(string, nat) request_queue" where
  "example_middle =
     \<lparr>queue = [''second''], isProcessing = True, lastRequestTime = 1000,
      resolveStack = [1], rejectStack = [1], drains = [AwaitTask ''first'' 0 0],
      added = [''first'', ''second''], dispatched = [''first''], settled = []\<rparr>"

section \<open>Feature search (services/geoportail.ts, searchLocationsNearPath)\<close>

text \<open>
  \<open>calculateBbox\<close> returns the string \<open>minLon,minLat,maxLon,maxLat\<close>, or the empty
  string for no points; its caller splits the string and converts the parts back into
  numbers.  The model returns the four numbers, \<open>None\<close> for the empty string.
\<close>

definition calculateBbox :: "coord list \<Rightarrow> real \<Rightarrow> (real \<times> real \<times> real \<times> real) option" where
  "calculateBbox points' bufferKm =
     (if points' = [] then None
      else
        (let minLon = fold (\<lambda>point m. min m (lon point)) points' (lon (points' ! 0));
             maxLon = fold (\<lambda>point m. max m (lon point)) points' (lon (points' ! 0));
             minLat = fold (\<lambda>point m. min m (lat point)) points' (lat (points' ! 0));
             maxLat = fold (\<lambda>point m. max m (lat point)) points' (lat (points' ! 0));
             bufferDegrees = bufferKm / 111.32
         in Some (minLon - bufferDegrees, minLat - bufferDegrees,
                  maxLon + bufferDegrees, maxLat + bufferDegrees)))"

text \<open>
  The Overpass query is determined by its bounding box, in the order \<open>minLat, minLon,
  maxLat, maxLon\<close>, and by the elements asked for: all named nodes, ways and relations
  for a path of one point, those that also carry a \<open>place\<close> tag otherwise.
\<close>

datatype query_elements = Named | NamedPlaces

record overpass_query =
  query_bbox :: "real \<times> real \<times> real \<times> real"
  queryElements :: query_elements

text \<open>
  Of the Overpass response the function reads the text only; \<open>None\<close> when
  \<open>response.text()\<close> rejects.
\<close>

record overpass_response =
  response_text :: "string option"

text \<open>The services as a call finds them.\<close>

record services =
  overpass :: "overpass_query \<Rightarrow> overpass_response fetched"
  elevation_api :: "coord list list \<Rightarrow> elevation_response fetched"

datatype error_log = ErrorInOverpassSearch | XmlParsingError | ErrorParsingResponse

text \<open>
  The world of a call: the shared request queue, the clock, the batches posted to the
  elevation service so far, and the console.  The tasks in the queue are Overpass
  requests, so \<open>dispatched\<close> of the queue lists the requests made to that service.
\<close>

record world =
  requestQueue :: "(overpass_query, overpass_response) request_queue"
  clock :: int
  elevation_requests :: "coord list list"
  console_error :: "error_log list"
  console_warnings :: "elevation_warning list"

text \<open>
  The task given to the queue: \<open>fetch\<close> inside \<open>try\<close>; a rejection is written to the console
  and thrown again.
\<close>

definition overpass_task :: "services \<Rightarrow> overpass_query \<Rightarrow> thrown + overpass_response" where
  "overpass_task sv query =
     (case overpass sv query of
        Rejects \<Rightarrow> Inl (AnError ''fetch failed'')
      | Responds response \<Rightarrow> Inr response)"

text \<open>
  Waiting for a promise of the queue lets the queue run.  \<open>drive\<close> runs it until no drain
  is left, at most \<open>n\<close> events: the timer of a waiting drain fires when the minimum delay
  is over, a task in flight settles with what the service answers, a drain that can
  continue does.  Tasks take no time here; the clock advances only while a timer runs.
\<close>

fun drive :: "nat \<Rightarrow> services \<Rightarrow> world \<Rightarrow> world" where
  "drive 0 sv w = w"
| "drive (Suc n) sv w =
     (case drains (requestQueue w) of
        [] \<Rightarrow> w
      | d # ds \<Rightarrow>
          (case d of
             AwaitDelay query res rej \<Rightarrow>
               (let now = max (clock w) (lastRequestTime (requestQueue w) + minDelayMs)
                in case fire (TimerFires 0 now) (requestQueue w) of
                     None \<Rightarrow> w
                   | Some q \<Rightarrow> drive n sv (w\<lparr>requestQueue := q, clock := now\<rparr>))
           | AwaitTask query res rej \<Rightarrow>
               (case fire (TaskSettles 0 (overpass_task sv query)) (requestQueue w) of
                  None \<Rightarrow> w
                | Some q \<Rightarrow>
                    drive n sv
                      (w\<lparr>requestQueue := q,
                         console_error := console_error w
                           @ (if isl (overpass_task sv query) then [ErrorInOverpassSearch] else [])\<rparr>))
           | AwaitClosure \<Rightarrow>
               (case fire (Resumes 0 (clock w)) (requestQueue w) of
                  None \<Rightarrow> w
                | Some q \<Rightarrow> drive n sv (w\<lparr>requestQueue := q\<rparr>))))"

text \<open>How an async function ends: it returns, it throws, or it never continues.\<close>

datatype 'a completion = Returns 'a | Throws thrown | Pending

text \<open>\<open>await requestQueue.add(task)\<close>.\<close>

definition await_add :: "services \<Rightarrow> overpass_query \<Rightarrow> world \<Rightarrow> overpass_response completion \<times> world" where
  "await_add sv query w =
     (let p = length (added (requestQueue w));
          w1 = w\<lparr>requestQueue := add query (clock w) (requestQueue w)\<rparr>;
          w2 = drive (remaining (requestQueue w1)) sv w1
      in case map_of (settled (requestQueue w2)) p of
           None \<Rightarrow> (Pending, w2)
         | Some (task, Inl error) \<Rightarrow> (Throws error, w2)
         | Some (task, Inr response) \<Rightarrow> (Returns response, w2))"

text \<open>The elevation of a result: the first of its three keys that the map has.\<close>

definition attach_elevation ::
  "platform \<Rightarrow> (string \<times> real) list \<Rightarrow> AddressSearchResult \<Rightarrow> AddressSearchResult" where
  "attach_elevation js elevations result =
     (let keys = [key_fixed js 6 (lat (coordinates result)) (lon (coordinates result)),
                  key_fixed js 5 (lat (coordinates result)) (lon (coordinates result)),
                  key_rounded js (lat (coordinates result)) (lon (coordinates result))]
      in case find (\<lambda>key. map_of elevations key \<noteq> None) keys of
           None \<Rightarrow> result
         | Some key \<Rightarrow> result\<lparr>elevation := map_of elevations key\<rparr>)"

text \<open>
  \<open>searchLocationsNearPath\<close> in its four phases.  First the query: the bounding box of
  the path, widened by the search distance, and the elements to ask for.
\<close>

definition build_query :: "coord list \<Rightarrow> real \<Rightarrow> overpass_query" where
  "build_query pathPoints searchDistanceKm =
     (let (minLon, minLat, maxLon, maxLat) =
            (case calculateBbox pathPoints searchDistanceKm of
               None \<Rightarrow> (0, 0, 0, 0)
             | Some box \<Rightarrow> box)
      in \<lparr>query_bbox = (minLat, minLon, maxLat, maxLon),
          queryElements = (if length pathPoints = 1 then Named else NamedPlaces)\<rparr>)"

text \<open>
  The loop over the settled responses, of which there is one: its text is read and
  parsed inside \<open>try\<close>, and the nodes and ways of the document are scanned.
\<close>

definition scan_response ::
  "platform \<Rightarrow> overpass_response \<Rightarrow> coord list \<Rightarrow> real \<Rightarrow> geojson option \<Rightarrow> world
     \<Rightarrow> (result_key \<times> AddressSearchResult) list \<times> world" where
  "scan_response js response pathPoints searchDistanceKm bufferPolygon w =
     (case response_text response of
        None \<Rightarrow> ([], w\<lparr>console_error := console_error w @ [ErrorParsingResponse]\<rparr>)
      | Some xmlText \<Rightarrow>
          (case parseFromString js xmlText of
             None \<Rightarrow> ([], w\<lparr>console_error := console_error w @ [XmlParsingError]\<rparr>)
           | Some doc \<Rightarrow>
               (processXmlWays (parseFloat js) doc
                  (processXmlNodes (parseFloat js) doc [] pathPoints searchDistanceKm bufferPolygon)
                  pathPoints searchDistanceKm bufferPolygon,
                w)))"

text \<open>The elevations of all results are fetched in one call, when there is a result.\<close>

definition with_elevations ::
  "platform \<Rightarrow> services \<Rightarrow> AddressSearchResult list \<Rightarrow> world \<Rightarrow> AddressSearchResult list \<times> world" where
  "with_elevations js sv resultArray w =
     (if length resultArray > 0
      then
        (let st = fetchElevations js (elevation_api sv) (map coordinates resultArray)
         in (map (attach_elevation js (elevationMap st)) resultArray,
             w\<lparr>elevation_requests := elevation_requests w @ sent st,
               console_warnings := console_warnings w @ console_warn st\<rparr>))
      else (resultArray, w))"

text \<open>
  The function itself.  \<open>pathPoints\<close> is \<open>None\<close> when the argument is missing.  The
  response is awaited while the array \<open>searchPromises\<close> is built, outside any \<open>try\<close>,
  so a rejected request ends the function with that error.
\<close>

definition searchLocationsNearPath ::
  "platform \<Rightarrow> services \<Rightarrow> coord list option \<Rightarrow> real \<Rightarrow> geojson option \<Rightarrow> world
     \<Rightarrow> AddressSearchResult list completion \<times> world" where
  "searchLocationsNearPath js sv pathPoints' searchDistanceKm bufferPolygon w =
     (case pathPoints' of
        None \<Rightarrow> (Returns [], w)
      | Some pathPoints \<Rightarrow>
          if length pathPoints = 0 then (Returns [], w)
          else
            (case await_add sv (build_query pathPoints searchDistanceKm) w of
               (Pending, w1) \<Rightarrow> (Pending, w1)
             | (Throws error, w1) \<Rightarrow> (Throws error, w1)
             | (Returns response, w1) \<Rightarrow>
                 (let (results, w2) =
                        scan_response js response pathPoints searchDistanceKm bufferPolygon w1;
                      (resultArray, w3) = with_elevations js sv (map snd results) w2
                  in (Returns resultArray, w3))))"

text \<open>Examples: a world with a new queue, and services for one Overpass document.\<close>

definition new_world :: world where
  "new_world = \<lparr>requestQueue = new_queue, clock = 1000, elevation_requests = [],
                 console_error = [], console_warnings = []\<rparr>"

definition example_document :: xml_document where
  "example_document =
     \<lparr>nodes = [\<lparr>node_lat = Some ''0'', node_lon = Some ''1'',
                 node_tags = [(''name'', Some ''Equator Inn''), (''place'', Some ''village'')]\<rparr>,
               \<lparr>node_lat = Some ''1'', node_lon = Some ''1'',
                 node_tags = [(''name'', Some ''Uptown''), (''place'', Some ''town'')]\<rparr>],
      ways = [\<lparr>way_center = Some \<lparr>center_lat = Some ''1'', center_lon = None\<rparr>,
                way_tags = [(''name'', Some ''Meridian Park'')]\<rparr>]\<rparr>"

definition example_services :: services where
  "example_services = \<lparr>overpass = (\<lambda>query. Responds \<lparr>response_text = Some ''osm''\<rparr>),
                        elevation_api = too_large\<rparr>"

definition example_platform :: platform where
  "example_platform = plain_platform\<lparr>parseFromString := (\<lambda>text. Some example_document)\<rparr>"

definition example_polygon :: geojson where
  "example_polygon = Geometry (Polygon [[(- 1, - 1), (- 1, 3), (3, 3), (3, - 1)]])"


section \<open>Properties of the geometry\<close>

lemma min_Infinity_left [simp]: "min Infinity (x::number) = x"
  by (cases x) (simp_all add: min_def)

lemma min_Infinity_right [simp]: "min (x::number) Infinity = x"
  by (cases x) (simp_all add: min_def)

lemma min_Fin [simp]: "min (Fin a) (Fin b) = Fin (min a b)"
  by (simp add: min_def)

lemma Math_min_three: "Math_min [a, b, c] = Fin (min (min a b) c)"
  by (simp add: Math_min_def)

text \<open>
  C8.  For every point and segment, \<open>distancePointToSegment\<close> is the minimum of the
  three haversine distances from the point: to the start of the segment, to its end and
  to its midpoint, the coordinate-wise arithmetic mean of the two ends.
\<close>

theorem distancePointToSegment_min_of_three:
  "distancePointToSegment p segStart segEnd =
     Fin (Min {haversineDistance p segStart,
               haversineDistance p segEnd,
               haversineDistance p \<lparr> lat = (lat segStart + lat segEnd) / 2,
                                       lon = (lon segStart + lon segEnd) / 2 \<rparr>})"
  by (simp add: distancePointToSegment_def Math_min_three min.commute min.left_commute)

lemma ray_loop_edges:
  "i \<le> length ext \<Longrightarrow> ray_loop x y ext i j b = ray_edges x y (ext ! j) (drop i ext) b"
proof (induction x y ext i j b rule: ray_loop.induct)
  case (1 x y exterior i j isInside)
  show ?case
  proof (cases "i < length exterior")
    case True
    then have d: "drop i exterior = exterior ! i # drop (i + 1) exterior"
      by (simp add: Cons_nth_drop_Suc)
    from True have "i + 1 \<le> length exterior" by simp
    with 1 True d show ?thesis
      by (subst ray_loop.simps) simp
  next
    case False
    with 1 show ?thesis by (subst ray_loop.simps) simp
  qed
qed

lemma ray_edges_parity: "ray_edges x y prev vs b = (b \<noteq> odd (crossings x y prev vs))"
  by (induction vs arbitrary: prev b) auto

lemma crossings_snoc:
  "crossings x y prev (vs @ [w]) =
     crossings x y prev vs + (if edge_intersect x y w (last (prev # vs)) then 1 else 0)"
  by (induction vs arbitrary: prev) auto

lemma edge_intersect_same: "\<not> edge_intersect x y v v"
  by (simp add: edge_intersect_def)

lemma ray_loop_closed:
  "ray_loop x y (v # vs @ [v]) 0 (length (v # vs @ [v]) - 1) False
   = ray_loop x y (v # vs) 0 (length (v # vs) - 1) False"
proof -
  have l1: "(v # vs @ [v]) ! (length (v # vs @ [v]) - 1) = v"
    by (simp add: nth_append)
  have l2: "(v # vs) ! (length (v # vs) - 1) = last (v # vs)"
    by (metis last_conv_nth list.distinct(1))
  show ?thesis
    unfolding ray_loop_edges [of 0, simplified] l1 l2 ray_edges_parity
    by (simp add: crossings_snoc edge_intersect_same)
qed

text \<open>
  C7.  \<open>pointInPolygon\<close> gives the same answer for a ring \<open>v # vs\<close> and for the ring
  closed by repeating its first vertex, \<open>v # vs @ [v]\<close>, for a bare polygon and for a
  feature, whatever the point and the inner rings; and in the square with the vertices
  (0,0), (0,2), (2,2), (2,0) it finds the point (1,1) and not the point (3,3).
\<close>

theorem pointInPolygon_ring_closure:
  "pointInPolygon p (Geometry (Polygon ((v # vs @ [v]) # holes)))
     = pointInPolygon p (Geometry (Polygon ((v # vs) # holes)))
   \<and> pointInPolygon p (Feature (Some (Polygon ((v # vs @ [v]) # holes))))
     = pointInPolygon p (Feature (Some (Polygon ((v # vs) # holes))))
   \<and> pointInPolygon (1, 1) (Geometry (Polygon [[(0, 0), (0, 2), (2, 2), (2, 0)]]))
   \<and> \<not> pointInPolygon (3, 3) (Geometry (Polygon [[(0, 0), (0, 2), (2, 2), (2, 0)]]))"
proof -
  have a: "ray_loop (fst p) (snd p) (v # vs @ [v]) 0 (length (v # vs @ [v]) - 1) False
   = ray_loop (fst p) (snd p) (v # vs) 0 (length (v # vs) - 1) False"
    by (rule ray_loop_closed)
  have b: "pointInPolygon (1, 1) (Geometry (Polygon [[(0, 0), (0, 2), (2, 2), (2, 0)]]))"
    by (simp add: pointInPolygon_def ray_loop_edges edge_intersect_def)
  have c: "\<not> pointInPolygon (3, 3) (Geometry (Polygon [[(0, 0), (0, 2), (2, 2), (2, 0)]]))"
    by (simp add: pointInPolygon_def ray_loop_edges edge_intersect_def)
  from a b c show ?thesis
    by (simp add: pointInPolygon_def)
qed


lemma ex_from_split:
  "(\<exists>k. i \<le> k \<and> P k) \<longleftrightarrow> (P i \<or> (\<exists>k. Suc i \<le> k \<and> P k))"
  by (metis Suc_leD Suc_leI le_neq_implies_less order_refl)

lemma zone_loop_le_iff:
  "zone_loop c path i m \<le> x \<longleftrightarrow>
     (m \<le> x \<or> (\<exists>k. i \<le> k \<and> k + 1 < length path
        \<and> distancePointToSegment c (path ! k) (path ! (k + 1)) \<le> x))"
proof (induction c path i m rule: zone_loop.induct)
  case (1 c path i m)
  let ?P = "\<lambda>k. k + 1 < length path
        \<and> distancePointToSegment c (path ! k) (path ! (k + 1)) \<le> x"
  show ?case
  proof (cases "i + 1 < length path")
    case True
    have "zone_loop c path i m \<le> x \<longleftrightarrow>
            zone_loop c path (i + 1)
              (min m (distancePointToSegment c (path ! i) (path ! (i + 1)))) \<le> x"
      using True by (subst zone_loop.simps) simp
    also have "\<dots> \<longleftrightarrow> (m \<le> x \<or> ?P i \<or> (\<exists>k. Suc i \<le> k \<and> ?P k))"
      using True 1 by (auto simp: min_le_iff_disj)
    also have "\<dots> \<longleftrightarrow> (m \<le> x \<or> (\<exists>k. i \<le> k \<and> ?P k))"
      using ex_from_split [of i ?P] by blast
    finally show ?thesis .
  next
    case False
    then show ?thesis
      by (subst zone_loop.simps) auto
  qed
qed

text \<open>
  C3.  With a buffer polygon, \<open>isLocationInSearchZone\<close> is \<open>pointInPolygon\<close> of the
  candidate (as \<open>[lon, lat]\<close>) against it.  Without one, for a path of exactly one point
  it is \<open>haversineDistance\<close> to that point \<open>\<le> searchDistanceKm\<close>; for a path of two or
  more points it is: the minimum of \<open>distancePointToSegment\<close> over all consecutive pairs
  of path points is \<open>\<le> searchDistanceKm\<close>.
\<close>

theorem isLocationInSearchZone_predicate:
  "isLocationInSearchZone c path r (Some polygon) = pointInPolygon (lon c, lat c) polygon
   \<and> isLocationInSearchZone c [p] r None = (haversineDistance c p \<le> r)
   \<and> isLocationInSearchZone c (p # q # rest) r None =
       (Min ((\<lambda>i. distancePointToSegment c ((p # q # rest) ! i) ((p # q # rest) ! (i + 1)))
               ` {i. i + 1 < length (p # q # rest)}) \<le> Fin r)"
proof -
  let ?path = "p # q # rest"
  let ?d = "\<lambda>i. distancePointToSegment c (?path ! i) (?path ! (i + 1))"
  let ?S = "{i. i + 1 < length ?path}"
  have fin: "finite (?d ` ?S)"
    by simp
  have ne: "?d ` ?S \<noteq> {}"
    by auto
  have "isLocationInSearchZone c ?path r None = (zone_loop c ?path 0 Infinity \<le> Fin r)"
    by (simp add: isLocationInSearchZone_def)
  also have "\<dots> = (\<exists>k. k + 1 < length ?path \<and> ?d k \<le> Fin r)"
    by (simp add: zone_loop_le_iff)
  also have "\<dots> = (\<exists>a \<in> ?d ` ?S. a \<le> Fin r)"
    by auto
  also have "\<dots> = (Min (?d ` ?S) \<le> Fin r)"
    using Min_le_iff [OF fin ne] by simp
  finally have multi: "isLocationInSearchZone c ?path r None = (Min (?d ` ?S) \<le> Fin r)" .
  have buf: "isLocationInSearchZone c path r (Some polygon) = pointInPolygon (lon c, lat c) polygon"
    by (simp add: isLocationInSearchZone_def)
  have single: "isLocationInSearchZone c [p] r None = (haversineDistance c p \<le> r)"
    by (simp add: isLocationInSearchZone_def)
  from buf single multi show ?thesis
    by blast
qed


section \<open>Properties of the layers store\<close>

lemma typeof_string: "(typeof v = ''string'') = (\<exists>s. v = JStr s)"
  by (cases v) simp_all

lemma typeof_number: "(typeof v = ''number'' \<and> \<not> Number_isNaN v) = (\<exists>x. v = JNum x)"
  by (cases v) simp_all

lemma greater_zero_iff: "greater_zero v = (\<exists>x. v = JNum x \<and> 0 < x)"
  by (cases v) simp_all

lemma get_prop_truthy_parent: "get_prop v k \<noteq> JUndefined \<Longrightarrow> truthy v"
  by (cases v) simp_all

lemma validateCircle_iff:
  "validateCircle c =
     (\<exists>i n la lo r. get_prop c ''id'' = JStr i \<and> get_prop c ''name'' = JStr n
        \<and> get_prop (get_prop c ''center'') ''lat'' = JNum la
        \<and> get_prop (get_prop c ''center'') ''lon'' = JNum lo
        \<and> get_prop c ''radius'' = JNum r \<and> 0 < r)"
proof -
  have "validateCircle c =
     (truthy c \<and> truthy (get_prop c ''center'')
      \<and> typeof (get_prop c ''id'') = ''string''
      \<and> typeof (get_prop c ''name'') = ''string''
      \<and> (typeof (get_prop (get_prop c ''center'') ''lat'') = ''number''
           \<and> \<not> Number_isNaN (get_prop (get_prop c ''center'') ''lat''))
      \<and> (typeof (get_prop (get_prop c ''center'') ''lon'') = ''number''
           \<and> \<not> Number_isNaN (get_prop (get_prop c ''center'') ''lon''))
      \<and> (typeof (get_prop c ''radius'') = ''number'' \<and> \<not> Number_isNaN (get_prop c ''radius''))
      \<and> greater_zero (get_prop c ''radius''))"
    unfolding validateCircle_def by blast
  also have "\<dots> = (truthy c \<and> truthy (get_prop c ''center'')
      \<and> (\<exists>i. get_prop c ''id'' = JStr i) \<and> (\<exists>n. get_prop c ''name'' = JStr n)
      \<and> (\<exists>la. get_prop (get_prop c ''center'') ''lat'' = JNum la)
      \<and> (\<exists>lo. get_prop (get_prop c ''center'') ''lon'' = JNum lo)
      \<and> (\<exists>r. get_prop c ''radius'' = JNum r)
      \<and> (\<exists>r. get_prop c ''radius'' = JNum r \<and> 0 < r))"
    unfolding typeof_string typeof_number greater_zero_iff ..
  also have "\<dots> = (\<exists>i n la lo r. get_prop c ''id'' = JStr i \<and> get_prop c ''name'' = JStr n
        \<and> get_prop (get_prop c ''center'') ''lat'' = JNum la
        \<and> get_prop (get_prop c ''center'') ''lon'' = JNum lo
        \<and> get_prop c ''radius'' = JNum r \<and> 0 < r)"
    using get_prop_truthy_parent [of c "''id''"]
      get_prop_truthy_parent [of "get_prop c ''center''" "''lat''"]
      get_prop_truthy_parent [of c "''center''"]
    by auto
  finally show ?thesis .
qed

lemma example_circle_valid: "validateCircle (example_circle i r) = (0 < r)"
  by (simp add: validateCircle_def example_circle_def)

lemma example_point_valid:
  "validatePoint (example_point i (JNum x))" "\<not> validatePoint (example_point i JNaN)"
  by (simp_all add: validatePoint_def example_point_def)

lemma example_segment_valid: "validateLineSegment (example_segment i)"
  by (simp add: validateLineSegment_def example_segment_def)

lemma example_note_valid: "validateNote (example_note i e)" "\<not> validateNote JNull"
  by (simp_all add: validateNote_def example_note_def)

text \<open>
  C5.  \<open>loadLayers\<close> never fails, and the store it leaves holds, of each kind, exactly
  the records of the data that the validator of the kind accepts, in their order (a
  missing array counts as empty); nothing of the store before the load remains, the
  Leaflet ids included; and one warning is written for each record dropped, first for
  the circles, then for the line segments, the points and the notes.  \<open>validateCircle\<close>
  accepts a record exactly when its \<open>id\<close> and \<open>name\<close> are strings, \<open>center.lat\<close>,
  \<open>center.lon\<close> and \<open>radius\<close> are numbers other than NaN, and \<open>radius > 0\<close>.  Loading
  three circle records of which one has the radius -1 leaves exactly the two others in
  the store and records one warning.
\<close>

theorem loadLayers_drops_invalid_records:
  "loadLayers data s =
     \<lparr>circles = filter validateCircle (case data_circles data of None \<Rightarrow> [] | Some xs \<Rightarrow> xs),
      lineSegments =
        filter validateLineSegment (case data_lineSegments data of None \<Rightarrow> [] | Some xs \<Rightarrow> xs),
      points = filter validatePoint (case data_points data of None \<Rightarrow> [] | Some xs \<Rightarrow> xs),
      notes = filter validateNote (case data_notes data of None \<Rightarrow> [] | Some xs \<Rightarrow> xs),
      leafletIdMap = [],
      warnings = warnings s
        @ map InvalidCircle
            (filter (\<lambda>x. \<not> validateCircle x)
               (case data_circles data of None \<Rightarrow> [] | Some xs \<Rightarrow> xs))
        @ map InvalidLineSegment
            (filter (\<lambda>x. \<not> validateLineSegment x)
               (case data_lineSegments data of None \<Rightarrow> [] | Some xs \<Rightarrow> xs))
        @ map InvalidPoint
            (filter (\<lambda>x. \<not> validatePoint x)
               (case data_points data of None \<Rightarrow> [] | Some xs \<Rightarrow> xs))
        @ map InvalidNote
            (filter (\<lambda>x. \<not> validateNote x)
               (case data_notes data of None \<Rightarrow> [] | Some xs \<Rightarrow> xs))\<rparr>
   \<and> validateCircle c =
       (\<exists>i n la lo r. get_prop c ''id'' = JStr i \<and> get_prop c ''name'' = JStr n
          \<and> get_prop (get_prop c ''center'') ''lat'' = JNum la
          \<and> get_prop (get_prop c ''center'') ''lon'' = JNum lo
          \<and> get_prop c ''radius'' = JNum r \<and> 0 < r)
   \<and> circles (loadLayers
        \<lparr>data_circles = Some [example_circle ''a'' 5, example_circle ''b'' (- 1), example_circle ''c'' 2],
         data_lineSegments = Some [], data_points = Some [], data_notes = None\<rparr> s)
       = [example_circle ''a'' 5, example_circle ''c'' 2]
   \<and> warnings (loadLayers
        \<lparr>data_circles = Some [example_circle ''a'' 5, example_circle ''b'' (- 1), example_circle ''c'' 2],
         data_lineSegments = Some [], data_points = Some [], data_notes = None\<rparr> s)
       = warnings s @ [InvalidCircle (example_circle ''b'' (- 1))]"
proof -
  have a: "loadLayers data s =
     \<lparr>circles = filter validateCircle (case data_circles data of None \<Rightarrow> [] | Some xs \<Rightarrow> xs),
      lineSegments =
        filter validateLineSegment (case data_lineSegments data of None \<Rightarrow> [] | Some xs \<Rightarrow> xs),
      points = filter validatePoint (case data_points data of None \<Rightarrow> [] | Some xs \<Rightarrow> xs),
      notes = filter validateNote (case data_notes data of None \<Rightarrow> [] | Some xs \<Rightarrow> xs),
      leafletIdMap = [],
      warnings = warnings s
        @ map InvalidCircle
            (filter (\<lambda>x. \<not> validateCircle x)
               (case data_circles data of None \<Rightarrow> [] | Some xs \<Rightarrow> xs))
        @ map InvalidLineSegment
            (filter (\<lambda>x. \<not> validateLineSegment x)
               (case data_lineSegments data of None \<Rightarrow> [] | Some xs \<Rightarrow> xs))
        @ map InvalidPoint
            (filter (\<lambda>x. \<not> validatePoint x)
               (case data_points data of None \<Rightarrow> [] | Some xs \<Rightarrow> xs))
        @ map InvalidNote
            (filter (\<lambda>x. \<not> validateNote x)
               (case data_notes data of None \<Rightarrow> [] | Some xs \<Rightarrow> xs))\<rparr>"
    by (cases s) (simp add: loadLayers_def clearLayers_def Let_def or_empty_def skipped_def)
  have b: "validateCircle c =
       (\<exists>i n la lo r. get_prop c ''id'' = JStr i \<and> get_prop c ''name'' = JStr n
          \<and> get_prop (get_prop c ''center'') ''lat'' = JNum la
          \<and> get_prop (get_prop c ''center'') ''lon'' = JNum lo
          \<and> get_prop c ''radius'' = JNum r \<and> 0 < r)"
    by (rule validateCircle_iff)
  have c: "circles (loadLayers
        \<lparr>data_circles = Some [example_circle ''a'' 5, example_circle ''b'' (- 1), example_circle ''c'' 2],
         data_lineSegments = Some [], data_points = Some [], data_notes = None\<rparr> s)
       = [example_circle ''a'' 5, example_circle ''c'' 2]"
    by (simp add: loadLayers_def clearLayers_def Let_def or_empty_def example_circle_valid)
  have d: "warnings (loadLayers
        \<lparr>data_circles = Some [example_circle ''a'' 5, example_circle ''b'' (- 1), example_circle ''c'' 2],
         data_lineSegments = Some [], data_points = Some [], data_notes = None\<rparr> s)
       = warnings s @ [InvalidCircle (example_circle ''b'' (- 1))]"
    by (simp add: loadLayers_def clearLayers_def Let_def or_empty_def skipped_def
        example_circle_valid)
  from a b c d show ?thesis
    by blast
qed

theorem loadLayers_drops_invalid_records_witness:
  "loadLayers example_batch used_store =
     \<lparr>circles = [example_circle ''a'' 5, example_circle ''c'' 2],
      lineSegments = [example_segment ''s''],
      points = [example_point ''p'' (JNum 48)],
      notes = [example_note ''A'' ''a''],
      leafletIdMap = [],
      warnings = [InvalidNote JNull, InvalidCircle (example_circle ''b'' (- 1)),
                  InvalidPoint (example_point ''q'' JNaN), InvalidNote JNull]\<rparr>
   \<and> length (circles (loadLayers example_batch used_store)) = 2"
proof -
  have w: "warnings used_store = [InvalidNote JNull]"
    by (simp add: used_store_def)
  from loadLayers_drops_invalid_records [of example_batch used_store JNull]
  have e: "loadLayers example_batch used_store =
     \<lparr>circles = [example_circle ''a'' 5, example_circle ''c'' 2],
      lineSegments = [example_segment ''s''],
      points = [example_point ''p'' (JNum 48)],
      notes = [example_note ''A'' ''a''],
      leafletIdMap = [],
      warnings = [InvalidNote JNull, InvalidCircle (example_circle ''b'' (- 1)),
                  InvalidPoint (example_point ''q'' JNaN), InvalidNote JNull]\<rparr>"
    by (simp add: example_batch_def w example_circle_valid example_point_valid
        example_segment_valid example_note_valid)
  then show ?thesis
    by simp
qed

lemma findIndex_Some:
  "findIndex p xs = Some i \<Longrightarrow> i < length xs \<and> p (xs ! i)"
proof (induction xs arbitrary: i)
  case Nil
  then show ?case by simp
next
  case (Cons x xs)
  then show ?case
    by (cases "p x") (auto simp: nth_Cons')
qed

lemma findIndex_update:
  "p y = p (xs ! i) \<Longrightarrow> findIndex p (xs[i := y]) = findIndex p xs"
proof (induction xs arbitrary: i)
  case Nil
  then show ?case by simp
next
  case (Cons x xs)
  then show ?case
    by (cases i) simp_all
qed

lemma get_prop_set_prop_other:
  "k \<noteq> k' \<Longrightarrow> get_prop (set_prop e k v) k' = get_prop e k'"
  by (cases e) (simp_all add: update_conv')

lemma get_prop_set_prop_same:
  "get_prop (set_prop (JObj ps) k v) k = v"
  by (simp add: update_conv')

lemma get_prop_defined_obj: "get_prop e k \<noteq> JUndefined \<Longrightarrow> \<exists>ps. e = JObj ps"
  by (cases e) simp_all

lemma strict_eq_truthy: "strict_eq a b \<Longrightarrow> truthy b \<Longrightarrow> a = b \<and> a \<noteq> JUndefined"
  by (cases a; cases b) simp_all

lemma getElement_set_noteId:
  "getElement (set_noteId s r v) t e = getElement s t e"
  by (cases r) (simp_all add: getElement_def findIndex_update get_prop_set_prop_other)

lemma getElement_warnings:
  "getElement (s\<lparr>warnings := w\<rparr>) t e = getElement s t e"
  by (simp add: getElement_def)

lemma getElement_notes:
  "getElement (s\<lparr>notes := ns\<rparr>) t e = getElement s t e"
  by (simp add: getElement_def)

lemma getElement_obj:
  assumes "getElement s t e = Some r" and "truthy e"
  shows "\<exists>ps. element_at s r = JObj ps"
proof -
  have "get_prop (element_at s r) ''id'' \<noteq> JUndefined"
    using assms
    by (auto simp: getElement_def split: if_splits dest!: findIndex_Some dest: strict_eq_truthy)
  then show ?thesis
    by (rule get_prop_defined_obj)
qed

lemma getElement_in_range:
  assumes "getElement s t e = Some r"
  shows "case r of CircleRef i \<Rightarrow> i < length (circles s)
          | LineSegmentRef i \<Rightarrow> i < length (lineSegments s)
          | PointRef i \<Rightarrow> i < length (points s)"
  using assms
  by (auto simp: getElement_def split: if_splits dest!: findIndex_Some)

lemma noteId_after_set:
  assumes "getElement s t e = Some r" and "truthy e"
  shows "get_prop (element_at (set_noteId s r v) r) ''noteId'' = v"
proof -
  obtain ps where ps: "element_at s r = JObj ps"
    using getElement_obj [OF assms] by blast
  from getElement_in_range [OF assms(1)] ps show ?thesis
    by (cases r) (simp_all add: update_conv')
qed

lemma element_at_warnings: "element_at (s\<lparr>warnings := w\<rparr>) r = element_at s r"
  by (cases r) simp_all

lemma element_at_notes: "element_at (s\<lparr>notes := w\<rparr>) r = element_at s r"
  by (cases r) simp_all

lemma set_noteId_warnings: "warnings (set_noteId s r v) = warnings s"
  by (cases r) simp_all

lemma set_noteId_notes: "notes (set_noteId s r v) = notes s"
  by (cases r) simp_all

lemma set_noteId_warnings_upd:
  "set_noteId (s\<lparr>warnings := w\<rparr>) r v = (set_noteId s r v)\<lparr>warnings := w\<rparr>"
  by (cases r) simp_all

lemma stamped_props:
  "k \<noteq> ''createdAt'' \<Longrightarrow> k \<noteq> ''updatedAt'' \<Longrightarrow> get_prop (stamped now n) k = get_prop n k"
  by (simp add: stamped_def Let_def get_prop_set_prop_other)

lemma addNote_linked:
  assumes tgt: "link_target s note = Some r" and idt: "truthy (get_prop note ''id'')"
  shows "addNote now note s =
           (set_noteId s r (get_prop note ''id''))
             \<lparr>warnings := warnings s @
                (if truthy (get_prop (element_at s r) ''noteId'')
                    \<and> \<not> strict_eq (get_prop (element_at s r) ''noteId'') (get_prop note ''id'')
                 then [ReplacingWithNewNote (get_prop note ''linkedElementId'')] else []),
              notes := notes s @ [stamped now note]\<rparr>"
proof -
  from tgt have l: "truthy (get_prop note ''linkedElementType'')"
    "truthy (get_prop note ''linkedElementId'')"
    "getElement s (get_prop note ''linkedElementType'') (get_prop note ''linkedElementId'') = Some r"
    by (simp_all add: link_target_def split: if_splits)
  have st: "get_prop (stamped now note) ''linkedElementType'' = get_prop note ''linkedElementType''"
    "get_prop (stamped now note) ''linkedElementId'' = get_prop note ''linkedElementId''"
    "get_prop (stamped now note) ''id'' = get_prop note ''id''"
    by (simp_all add: stamped_props)
  have "addNote now note s =
     (let n = stamped now note;
          s1 = (if truthy (get_prop n ''linkedElementType'') \<and> truthy (get_prop n ''linkedElementId'')
                   \<and> truthy (get_prop n ''id'')
                then (case getElement s (get_prop n ''linkedElementType'') (get_prop n ''linkedElementId'') of
                        None \<Rightarrow> s
                      | Some r \<Rightarrow>
                          (let element = element_at s r;
                               s' = (if truthy (get_prop element ''noteId'')
                                        \<and> \<not> strict_eq (get_prop element ''noteId'') (get_prop n ''id'')
                                     then s\<lparr>warnings := warnings s
                                            @ [ReplacingWithNewNote (get_prop n ''linkedElementId'')]\<rparr>
                                     else s)
                           in set_noteId s' r (get_prop n ''id'')))
                else s)
      in s1\<lparr>notes := notes s1 @ [n]\<rparr>)"
    by (simp add: addNote_def stamped_def Let_def)
  also have "\<dots> = (set_noteId s r (get_prop note ''id''))
             \<lparr>warnings := warnings s @
                (if truthy (get_prop (element_at s r) ''noteId'')
                    \<and> \<not> strict_eq (get_prop (element_at s r) ''noteId'') (get_prop note ''id'')
                 then [ReplacingWithNewNote (get_prop note ''linkedElementId'')] else []),
              notes := notes s @ [stamped now note]\<rparr>"
    using l idt
    by (simp add: Let_def st set_noteId_warnings_upd set_noteId_notes set_noteId_warnings)
  finally show ?thesis .
qed

lemma link_target_set_noteId: "link_target (set_noteId s r v) n = link_target s n"
  by (simp add: link_target_def getElement_set_noteId)

lemma link_target_warnings: "link_target (s\<lparr>warnings := w\<rparr>) n = link_target s n"
  by (simp add: link_target_def getElement_warnings)

lemma link_target_notes: "link_target (s\<lparr>notes := w\<rparr>) n = link_target s n"
  by (simp add: link_target_def getElement_notes)

lemma link_target_getElement:
  "link_target s n = Some r \<Longrightarrow>
     truthy (get_prop n ''linkedElementType'') \<and> truthy (get_prop n ''linkedElementId'')
     \<and> getElement s (get_prop n ''linkedElementType'') (get_prop n ''linkedElementId'') = Some r"
  by (simp add: link_target_def split: if_splits)

lemma updateNote_relinked:
  assumes fi: "findIndex (\<lambda>n. strict_eq (get_prop n ''id'') i) (notes s) = Some k"
    and tr: "truthy (notes s ! k)"
    and ch: "\<not> strict_eq (get_prop (notes s ! k) ''linkedElementId'')
                 (get_prop (merged now (notes s ! k) patch) ''linkedElementId'')
             \<or> \<not> strict_eq (get_prop (notes s ! k) ''linkedElementType'')
                 (get_prop (merged now (notes s ! k) patch) ''linkedElementType'')"
    and tgt: "link_target s (merged now (notes s ! k) patch) = Some r"
    and idt: "truthy (get_prop (merged now (notes s ! k) patch) ''id'')"
  shows "get_prop (element_at (updateNote now i patch s) r) ''noteId''
           = get_prop (merged now (notes s ! k) patch) ''id''
         \<and> notes (updateNote now i patch s) = (notes s)[k := merged now (notes s ! k) patch]
         \<and> link_target (updateNote now i patch s) n = link_target s n"
proof -
  let ?old = "notes s ! k"
  let ?upd = "merged now ?old patch"
  define s1 where "s1 =
     (if truthy (get_prop ?old ''linkedElementType'') \<and> truthy (get_prop ?old ''linkedElementId'')
      then (case getElement s (get_prop ?old ''linkedElementType'') (get_prop ?old ''linkedElementId'') of
              None \<Rightarrow> s
            | Some r \<Rightarrow> if strict_eq (get_prop (element_at s r) ''noteId'') i
                        then set_noteId s r JUndefined else s)
      else s)"
  define s' where "s' =
     (if truthy (get_prop (element_at s1 r) ''noteId'')
         \<and> \<not> strict_eq (get_prop (element_at s1 r) ''noteId'') (get_prop ?upd ''id'')
      then s1\<lparr>warnings := warnings s1 @ [ReplacingWithUpdatedNote (get_prop ?upd ''linkedElementId'')]\<rparr>
      else s1)"
  have g1: "getElement s1 t e = getElement s t e" for t e
    by (simp add: s1_def getElement_set_noteId split: option.splits)
  have n1: "notes s1 = notes s"
    by (simp add: s1_def set_noteId_notes split: option.splits)
  have g': "getElement s' t e = getElement s t e" for t e
    by (simp add: s'_def g1 getElement_warnings)
  have n': "notes s' = notes s"
    by (simp add: s'_def n1)
  note l = link_target_getElement [OF tgt]
  have eq: "updateNote now i patch s = (set_noteId s' r (get_prop ?upd ''id''))\<lparr>notes :=
              (notes (set_noteId s' r (get_prop ?upd ''id'')))[k := ?upd]\<rparr>"
    using fi tr ch l idt
    by (simp add: updateNote_def merged_def [symmetric] Let_def s1_def [symmetric] g1 s'_def [symmetric])
  have a: "get_prop (element_at (set_noteId s' r (get_prop ?upd ''id'')) r) ''noteId''
             = get_prop ?upd ''id''"
    by (rule noteId_after_set [where t = "get_prop ?upd ''linkedElementType''"
          and e = "get_prop ?upd ''linkedElementId''"]) (simp_all add: g' l)
  have lt: "link_target s' n = link_target s n"
    by (simp add: link_target_def g')
  show ?thesis
    by (simp add: eq a element_at_notes set_noteId_notes n' link_target_notes
        link_target_set_noteId lt)
qed

lemma updateNote_warnings:
  "warnings (updateNote now i patch s) = warnings s
   \<or> (\<exists>e. warnings (updateNote now i patch s) = warnings s @ [ReplacingWithUpdatedNote e])"
  by (auto simp: updateNote_def Let_def set_noteId_warnings split: option.splits)

lemma store_A_eq:
  "store_A = \<lparr>circles = [set_prop (example_circle ''e1'' 5) ''noteId'' (JStr ''A'')],
     lineSegments = [], points = [],
     notes = [stamped 1 (example_note ''A'' ''e1'')], leafletIdMap = [], warnings = []\<rparr>"
  by (simp add: store_A_def addNote_def example_store_def example_note_def example_circle_def
      getElement_def Let_def stamped_def)

lemma store_AB_eq:
  "store_AB = \<lparr>circles = [set_prop (example_circle ''e1'' 5) ''noteId'' (JStr ''B'')],
     lineSegments = [], points = [],
     notes = [stamped 1 (example_note ''A'' ''e1''), stamped 2 (example_note ''B'' ''e1'')],
     leafletIdMap = [], warnings = [ReplacingWithNewNote (JStr ''e1'')]\<rparr>"
  by (simp add: store_AB_def store_A_eq addNote_def example_note_def example_circle_def
      getElement_def Let_def stamped_def)

text \<open>
  The link invariant under the note operations.  \<open>deleteNote\<close> keeps I1, and clears
  the \<open>noteId\<close> of the element that the deleted note links to.  \<open>addNote\<close> keeps I1
  when the new note links to no element, or has a non-empty string as its id and links to
  an element that no stored note links to.  When the new note links to an element that a
  stored note links to, I1 never holds afterwards: the stored note keeps its link.
  \<open>updateNote\<close> that moves the link of a note to a free element clears the \<open>noteId\<close> of
  the element left behind and keeps I1 in the example.
\<close>

lemma map_filter_app: "List.map_filter f (xs @ ys) = List.map_filter f xs @ List.map_filter f ys"
  by (simp add: List.map_filter_def)

lemma map_filter_set: "set (List.map_filter f xs) = {y. \<exists>x\<in>set xs. f x = Some y}"
  by (induction xs) (auto simp: List.map_filter_simps split: option.splits)

lemma map_filter_remove:
  assumes "distinct (List.map_filter f xs)" and "k < length xs"
  shows "distinct (List.map_filter f (take k xs @ drop (Suc k) xs))"
    and "f (xs ! k) = Some r \<Longrightarrow> n \<in> set (take k xs @ drop (Suc k) xs) \<Longrightarrow> f n \<noteq> Some r"
proof -
  have xs: "xs = take k xs @ [xs ! k] @ drop (Suc k) xs"
    using id_take_nth_drop [OF assms(2)] by simp
  have "List.map_filter f xs = List.map_filter f (take k xs) @ List.map_filter f [xs ! k]
             @ List.map_filter f (drop (Suc k) xs)"
    by (subst xs) (simp only: map_filter_app)
  with assms(1) have d: "distinct (List.map_filter f (take k xs) @ List.map_filter f [xs ! k]
             @ List.map_filter f (drop (Suc k) xs))"
    by simp
  then show "distinct (List.map_filter f (take k xs @ drop (Suc k) xs))"
    by (auto simp: map_filter_app simp del: map_filter_simps)
  show "f (xs ! k) = Some r \<Longrightarrow> n \<in> set (take k xs @ drop (Suc k) xs) \<Longrightarrow> f n \<noteq> Some r"
  proof
    assume r: "f (xs ! k) = Some r" and n: "n \<in> set (take k xs @ drop (Suc k) xs)" and "f n = Some r"
    then have "r \<in> set (List.map_filter f (take k xs)) \<or> r \<in> set (List.map_filter f (drop (Suc k) xs))"
      by (auto simp: map_filter_set)
    moreover from r have "List.map_filter f [xs ! k] = [r]"
      by (simp add: List.map_filter_def)
    ultimately show False
      using d by auto
  qed
qed

lemma element_at_set_noteId_other:
  "r' \<noteq> r \<Longrightarrow> element_at (set_noteId s r v) r' = element_at s r'"
  by (cases r; cases r') auto

lemma deleteNote_keeps_I1:
  assumes "I1 s"
  shows "I1 (deleteNote j s)"
proof (cases "findIndex (\<lambda>n. strict_eq (get_prop n ''id'') j) (notes s)")
  case None
  with assms show ?thesis
    by (simp add: deleteNote_def)
next
  case (Some k)
  let ?note = "notes s ! k"
  let ?rest = "take k (notes s) @ drop (Suc k) (notes s)"
  from findIndex_Some [OF Some] have k: "k < length (notes s)"
    by simp
  from assms have all: "\<And>n r. n \<in> set (notes s) \<Longrightarrow> link_target s n = Some r \<Longrightarrow>
      strict_eq (get_prop (element_at s r) ''noteId'') (get_prop n ''id'')"
    and dis: "distinct (List.map_filter (link_target s) (notes s))"
    by (auto simp: I1_def list_all_iff)
  define s1 where "s1 =
     (if truthy ?note \<and> truthy (get_prop ?note ''linkedElementType'')
         \<and> truthy (get_prop ?note ''linkedElementId'')
      then (case getElement s (get_prop ?note ''linkedElementType'') (get_prop ?note ''linkedElementId'') of
              None \<Rightarrow> s
            | Some r \<Rightarrow> if strict_eq (get_prop (element_at s r) ''noteId'') j
                        then set_noteId s r JUndefined else s)
      else s)"
  have eq: "deleteNote j s = s1\<lparr>notes := take k (notes s1) @ drop (Suc k) (notes s1)\<rparr>"
    using Some by (simp add: deleteNote_def Let_def s1_def)
  have n1: "notes s1 = notes s"
    by (simp add: s1_def set_noteId_notes split: option.splits)
  have l1: "link_target s1 n = link_target s n" for n
    by (simp add: s1_def link_target_set_noteId split: option.splits)
  have sub: "set ?rest \<subseteq> set (notes s)"
    by (auto dest: in_set_takeD in_set_dropD)
  have e1: "get_prop (element_at s1 r') ''noteId'' = get_prop (element_at s r') ''noteId''"
    if n: "n \<in> set ?rest" and t: "link_target s n = Some r'" for n r'
  proof (cases "link_target s ?note")
    case None
    then have "s1 = s"
      by (auto simp: s1_def link_target_def split: if_splits)
    then show ?thesis by simp
  next
    case (Some r)
    then have "s1 = s \<or> s1 = set_noteId s r JUndefined"
      by (auto simp: s1_def link_target_def split: if_splits)
    moreover from map_filter_remove(2) [OF dis k Some n] t have "r' \<noteq> r"
      by auto
    ultimately show ?thesis
      by (auto simp: element_at_set_noteId_other)
  qed
  have nd: "notes (deleteNote j s) = ?rest"
    by (simp add: eq n1)
  have ld: "link_target (deleteNote j s) = link_target s"
    by (rule ext) (simp add: eq l1 link_target_notes)
  have ed: "element_at (deleteNote j s) r = element_at s1 r" for r
    by (simp add: eq element_at_notes)
  show ?thesis
    unfolding I1_def list_all_iff nd ld
  proof (intro conjI ballI)
    fix n
    assume n: "n \<in> set ?rest"
    show "case link_target s n of
            None \<Rightarrow> True
          | Some r \<Rightarrow> strict_eq (get_prop (element_at (deleteNote j s) r) ''noteId'')
                      (get_prop n ''id'')"
    proof (cases "link_target s n")
      case None
      then show ?thesis by simp
    next
      case (Some r')
      with e1 [OF n Some] all [of n r'] n sub show ?thesis
        by (auto simp: ed)
    qed
  next
    show "distinct (List.map_filter (link_target s) ?rest)"
      by (rule map_filter_remove(1) [OF dis k])
  qed
qed

lemma addNote_notes: "notes (addNote now note s) = notes s @ [stamped now note]"
  by (simp add: addNote_def stamped_def Let_def set_noteId_notes split: option.splits)

lemma addNote_link_target: "link_target (addNote now note s) = link_target s"
  by (rule ext)
     (simp add: addNote_def Let_def link_target_notes link_target_set_noteId link_target_warnings
        split: option.splits)

lemma link_target_stamped: "link_target s (stamped now note) = link_target s note"
  by (simp add: link_target_def stamped_props)

lemma addNote_unlinked:
  assumes "link_target s note = None"
  shows "addNote now note s = s\<lparr>notes := notes s @ [stamped now note]\<rparr>"
proof -
  have st: "get_prop (stamped now note) ''linkedElementType'' = get_prop note ''linkedElementType''"
    "get_prop (stamped now note) ''linkedElementId'' = get_prop note ''linkedElementId''"
    by (simp_all add: stamped_props)
  have "addNote now note s =
     (let n = stamped now note;
          s1 = (if truthy (get_prop n ''linkedElementType'') \<and> truthy (get_prop n ''linkedElementId'')
                   \<and> truthy (get_prop n ''id'')
                then (case getElement s (get_prop n ''linkedElementType'') (get_prop n ''linkedElementId'') of
                        None \<Rightarrow> s
                      | Some r \<Rightarrow>
                          (let element = element_at s r;
                               s' = (if truthy (get_prop element ''noteId'')
                                        \<and> \<not> strict_eq (get_prop element ''noteId'') (get_prop n ''id'')
                                     then s\<lparr>warnings := warnings s
                                            @ [ReplacingWithNewNote (get_prop n ''linkedElementId'')]\<rparr>
                                     else s)
                           in set_noteId s' r (get_prop n ''id'')))
                else s)
      in s1\<lparr>notes := notes s1 @ [n]\<rparr>)"
    by (simp add: addNote_def stamped_def Let_def)
  with assms show ?thesis
    by (auto simp: Let_def st link_target_def split: if_splits)
qed

lemma addNote_overwrite_breaks_I1:
  assumes "n \<in> set (notes s)" and "link_target s n = Some r" and "link_target s note = Some r"
  shows "\<not> I1 (addNote now note s)"
proof -
  have "r \<in> set (List.map_filter (link_target s) (notes s))"
    using assms(1,2) by (auto simp: map_filter_set)
  moreover have "List.map_filter (link_target s) [stamped now note] = [r]"
    using assms(3) by (simp add: link_target_stamped)
  ultimately have "\<not> distinct (List.map_filter (link_target s) (notes s @ [stamped now note]))"
    by (simp add: map_filter_app del: map_filter_simps)
  then show ?thesis
    by (simp add: I1_def addNote_notes addNote_link_target)
qed

lemma addNote_keeps_I1:
  assumes inv: "I1 s"
    and new: "link_target s note = None
              \<or> (\<exists>i. get_prop note ''id'' = JStr i \<and> i \<noteq> [])
                \<and> (\<forall>n\<in>set (notes s). link_target s n \<noteq> link_target s note)"
  shows "I1 (addNote now note s)"
proof -
  from inv have all: "\<And>n r. n \<in> set (notes s) \<Longrightarrow> link_target s n = Some r \<Longrightarrow>
      strict_eq (get_prop (element_at s r) ''noteId'') (get_prop n ''id'')"
    and dis: "distinct (List.map_filter (link_target s) (notes s))"
    by (auto simp: I1_def list_all_iff)
  show ?thesis
  proof (cases "link_target s note")
    case None
    then have eq: "addNote now note s = s\<lparr>notes := notes s @ [stamped now note]\<rparr>"
      by (rule addNote_unlinked)
    have ed: "element_at (addNote now note s) r = element_at s r" for r
      by (simp add: eq element_at_notes)
    show ?thesis
      unfolding I1_def list_all_iff addNote_notes addNote_link_target
    proof (intro conjI ballI)
      fix n
      assume "n \<in> set (notes s @ [stamped now note])"
      then consider "n \<in> set (notes s)" | "n = stamped now note"
        by auto
      then show "case link_target s n of
              None \<Rightarrow> True
            | Some r \<Rightarrow> strict_eq (get_prop (element_at (addNote now note s) r) ''noteId'')
                        (get_prop n ''id'')"
      proof cases
        case 1
        with all [of n] show ?thesis
          by (auto simp: ed split: option.splits)
      next
        case 2
        with None show ?thesis
          by (simp add: link_target_stamped)
      qed
    next
      have "List.map_filter (link_target s) [stamped now note] = []"
        using None by (simp add: link_target_stamped)
      with dis show "distinct (List.map_filter (link_target s) (notes s @ [stamped now note]))"
        by (simp add: map_filter_app del: map_filter_simps)
    qed
  next
    case (Some r)
    with new obtain i where i: "get_prop note ''id'' = JStr i" "i \<noteq> []"
      and free: "\<And>n. n \<in> set (notes s) \<Longrightarrow> link_target s n \<noteq> Some r"
      by auto
    from i have idt: "truthy (get_prop note ''id'')"
      by simp
    note eq = addNote_linked [OF Some idt, of now]
    note l = link_target_getElement [OF Some]
    have own: "get_prop (element_at (addNote now note s) r) ''noteId'' = JStr i"
      using noteId_after_set [of s "get_prop note ''linkedElementType''"
          "get_prop note ''linkedElementId''" r "get_prop note ''id''"] l
      by (simp add: eq element_at_notes element_at_warnings i)
    have other: "element_at (addNote now note s) r' = element_at s r'" if "r' \<noteq> r" for r'
      using that by (simp add: eq element_at_notes element_at_warnings element_at_set_noteId_other)
    show ?thesis
      unfolding I1_def list_all_iff addNote_notes addNote_link_target
    proof (intro conjI ballI)
      fix n
      assume "n \<in> set (notes s @ [stamped now note])"
      then consider "n \<in> set (notes s)" | "n = stamped now note"
        by auto
      then show "case link_target s n of
              None \<Rightarrow> True
            | Some r \<Rightarrow> strict_eq (get_prop (element_at (addNote now note s) r) ''noteId'')
                        (get_prop n ''id'')"
      proof cases
        case 1
        show ?thesis
        proof (cases "link_target s n")
          case None
          then show ?thesis by simp
        next
          case (Some r')
          with free [OF 1] have "r' \<noteq> r"
            by auto
          with all [OF 1 Some] Some show ?thesis
            by (simp add: other)
        qed
      next
        case 2
        with Some show ?thesis
          by (simp add: link_target_stamped own stamped_props i)
      qed
    next
      have "List.map_filter (link_target s) [stamped now note] = [r]"
        using Some by (simp add: link_target_stamped)
      moreover have "r \<notin> set (List.map_filter (link_target s) (notes s))"
        using free by (auto simp: map_filter_set)
      ultimately show "distinct (List.map_filter (link_target s) (notes s @ [stamped now note]))"
        using dis by (simp add: map_filter_app del: map_filter_simps)
    qed
  qed
qed

lemma strict_eq_trans: "strict_eq a b \<Longrightarrow> strict_eq b c \<Longrightarrow> strict_eq a c"
  by (cases a; cases b; cases c) simp_all

lemma deleteNote_clears_link:
  assumes inv: "I1 s"
    and fi: "findIndex (\<lambda>n. strict_eq (get_prop n ''id'') j) (notes s) = Some k"
    and tgt: "link_target s (notes s ! k) = Some r"
  shows "get_prop (element_at (deleteNote j s) r) ''noteId'' = JUndefined
         \<and> notes (deleteNote j s) = take k (notes s) @ drop (Suc k) (notes s)"
proof -
  let ?note = "notes s ! k"
  from findIndex_Some [OF fi] have k: "k < length (notes s)"
    and idj: "strict_eq (get_prop ?note ''id'') j"
    by simp_all
  from inv k tgt have "strict_eq (get_prop (element_at s r) ''noteId'') (get_prop ?note ''id'')"
    by (auto simp: I1_def list_all_length split: option.splits)
  with idj have own: "strict_eq (get_prop (element_at s r) ''noteId'') j"
    by (rule strict_eq_trans [rotated])
  note l = link_target_getElement [OF tgt]
  from l have tr: "truthy ?note"
    by (auto intro: get_prop_truthy_parent [of ?note "''linkedElementId''"])
  have eq: "deleteNote j s =
      (set_noteId s r JUndefined)\<lparr>notes := take k (notes s) @ drop (Suc k) (notes s)\<rparr>"
    using fi l tr own by (simp add: deleteNote_def Let_def set_noteId_notes)
  have "get_prop (element_at (set_noteId s r JUndefined) r) ''noteId'' = JUndefined"
    using l by (intro noteId_after_set [where t = "get_prop ?note ''linkedElementType''"
          and e = "get_prop ?note ''linkedElementId''"]) simp_all
  then show ?thesis
    by (simp add: eq element_at_notes)
qed

lemma updateNote_relink_example:
  "I1 store_two
   \<and> updateNote 2 (JStr ''A'') relink_patch store_two =
       \<lparr>circles = [set_prop (example_circle ''e1'' 5) ''noteId'' JUndefined,
                   set_prop (example_circle ''e2'' 3) ''noteId'' (JStr ''A'')],
        lineSegments = [], points = [],
        notes = [merged 2 (example_note ''A'' ''e1'') relink_patch],
        leafletIdMap = [], warnings = []\<rparr>
   \<and> I1 (updateNote 2 (JStr ''A'') relink_patch store_two)"
proof -
  have m: "merged 2 (example_note ''A'' ''e1'') relink_patch =
     JObj [(''id'', JStr ''A''), (''title'', JStr ''t''), (''content'', JStr ''c''),
           (''linkedElementType'', JStr ''circle''), (''linkedElementId'', JStr ''e2''),
           (''updatedAt'', JNum 2)]"
    by (simp add: merged_def spread_def example_note_def relink_patch_def)
  have a: "I1 store_two"
    by (simp add: I1_def store_two_def link_target_def getElement_def example_note_def
        example_circle_def)
  have b: "updateNote 2 (JStr ''A'') relink_patch store_two =
       \<lparr>circles = [set_prop (example_circle ''e1'' 5) ''noteId'' JUndefined,
                   set_prop (example_circle ''e2'' 3) ''noteId'' (JStr ''A'')],
        lineSegments = [], points = [],
        notes = [merged 2 (example_note ''A'' ''e1'') relink_patch],
        leafletIdMap = [], warnings = []\<rparr>"
    by (simp add: updateNote_def store_two_def merged_def Let_def spread_def example_note_def
        relink_patch_def getElement_def example_circle_def)
  have c: "I1 (updateNote 2 (JStr ''A'') relink_patch store_two)"
    by (simp add: b m I1_def link_target_def getElement_def example_circle_def)
  from a b c show ?thesis
    by blast
qed

text \<open>
  C4.  I1 does not hold after a second note is linked to an element that has a note.  In
  the store with one circle, linking note A to the circle establishes I1; linking a second
  note B to the same circle sets the \<open>noteId\<close> of the circle to B and writes a warning,
  and note A stays in the store, with its link to the circle untouched: afterwards two
  notes link to the circle and the \<open>noteId\<close> of the circle is not the id of A.  The
  comments of \<open>addNote\<close> announce a bidirectional link that is one-to-one, and
  \<open>deleteNote\<close> and \<open>updateNote\<close> do clear the end of a link that they give up.
\<close>

theorem overwrite_breaks_I1:
  "I1 example_store \<and> I1 store_A \<and> \<not> I1 store_AB
   \<and> get_prop (circles store_AB ! 0) ''noteId'' = JStr ''B''
   \<and> warnings store_AB = [ReplacingWithNewNote (JStr ''e1'')]
   \<and> get_prop (notes store_AB ! 0) ''id'' = JStr ''A''
   \<and> link_target store_AB (notes store_AB ! 0) = Some (CircleRef 0)
   \<and> link_target store_AB (notes store_AB ! 1) = Some (CircleRef 0)"
proof -
  have a: "I1 example_store"
    by (simp add: I1_def example_store_def List.map_filter_def)
  have b: "I1 store_A"
    by (simp add: I1_def store_A_eq List.map_filter_def link_target_def getElement_def
        stamped_def example_note_def example_circle_def)
  have c: "\<not> I1 store_AB"
    by (simp add: I1_def store_AB_eq List.map_filter_def link_target_def getElement_def
        stamped_def example_note_def example_circle_def)
  have d: "get_prop (circles store_AB ! 0) ''noteId'' = JStr ''B''"
    by (simp add: store_AB_eq example_circle_def)
  have e: "get_prop (notes store_AB ! 0) ''id'' = JStr ''A''"
    by (simp add: store_AB_eq stamped_def example_note_def)
  have f: "link_target store_AB (notes store_AB ! 0) = Some (CircleRef 0)"
    by (simp add: store_AB_eq link_target_def getElement_def
        stamped_def example_note_def example_circle_def)
  have g: "link_target store_AB (notes store_AB ! 1) = Some (CircleRef 0)"
    by (simp add: store_AB_eq link_target_def getElement_def
        stamped_def example_note_def example_circle_def)
  from a b c d e f g show ?thesis
    by (simp add: store_AB_eq)
qed

section \<open>Properties of searchAddress\<close>

lemma trim_paris: "trim ''paris'' = ''paris''"
  by (simp add: trim_def is_white_def)

text \<open>
  C6, as stated, fails.  A service that is reached and answers with status 200 and a body
  that is not JSON makes \<open>searchAddress\<close> throw, and so does a service that answers with
  status 500: in both cases the provider is not unreachable and has not found the request
  invalid.
\<close>

theorem searchAddress_raises_when_reached:
  "searchAddress garbled_service ''paris'' 8 = Inl (FailedToSearchAddress BodyNotJson)
   \<and> searchAddress failing_service ''paris'' 8 = Inl (FailedToSearchAddress (ApiError 500))"
  by (simp add: searchAddress_def trim_paris garbled_service_def failing_service_def ok_def)

text \<open>
  C6, amended.  \<open>searchAddress\<close> throws exactly when the query is not blank and the
  request fails in one of these ways: \<open>fetch\<close> rejects; the status of the response is
  not in 200..299; the body is not JSON; the parsed body is \<open>null\<close>; an entry of its
  \<open>results\<close> array is \<open>null\<close> or \<open>undefined\<close>.  What it throws is the error
  \<open>Failed to search address\<close> around the failure.  For a blank query it returns the
  empty list, and so it does for a response with a status in 200..299 whose parsed body
  has no \<open>results\<close> array.  Otherwise, for a response with a status in 200..299 whose
  parsed body has a \<open>results\<close> array without such entries, it returns the results
  mapped one by one: \<open>main\<close> is the \<open>fulltext\<close> of the entry, \<open>secondary\<close> and
  \<open>type\<close> its \<open>kind\<close> (\<open>secondary\<close> is \<open>undefined\<close> for a falsy \<open>kind\<close>), and
  the coordinates are its \<open>y\<close> as latitude and its \<open>x\<close> as longitude.
\<close>

theorem searchAddress_raises_iff:
  "isl (searchAddress fetch query limit) =
     (trim query \<noteq> []
      \<and> (case fetch (query, limit) of
            Rejects \<Rightarrow> True
          | Responds response \<Rightarrow>
              status response < 200 \<or> 299 < status response
              \<or> (case body_json response of
                    None \<Rightarrow> True
                  | Some data \<Rightarrow>
                      data = JNull \<or> data = JUndefined
                      \<or> (\<exists>results. get_prop data ''results'' = JArr results
                             \<and> (JNull \<in> set results \<or> JUndefined \<in> set results)))))
   \<and> (isl (searchAddress fetch query limit) \<longrightarrow>
        (\<exists>failure. searchAddress fetch query limit = Inl (FailedToSearchAddress failure)))
   \<and> (trim query = [] \<longrightarrow> searchAddress fetch query limit = Inr [])
   \<and> (trim query \<noteq> [] \<and> fetch (query, limit) = Responds response
        \<and> 200 \<le> status response \<and> status response \<le> 299
        \<and> body_json response = Some data \<and> data \<noteq> JNull \<and> data \<noteq> JUndefined
        \<and> (\<forall>results. get_prop data ''results'' \<noteq> JArr results)
      \<longrightarrow> searchAddress fetch query limit = Inr [])
   \<and> (trim query \<noteq> [] \<and> fetch (query, limit) = Responds response
        \<and> 200 \<le> status response \<and> status response \<le> 299
        \<and> body_json response = Some data \<and> data \<noteq> JNull \<and> data \<noteq> JUndefined
        \<and> get_prop data ''results'' = JArr results
        \<and> JNull \<notin> set results \<and> JUndefined \<notin> set results
      \<longrightarrow> searchAddress fetch query limit =
            Inr (map (\<lambda>result.
                   JObj [(''main'', get_prop result ''fulltext''),
                         (''secondary'', if truthy (get_prop result ''kind'')
                                         then get_prop result ''kind'' else JUndefined),
                         (''coordinates'', JObj [(''lat'', get_prop result ''y''),
                                                 (''lon'', get_prop result ''x'')]),
                         (''type'', get_prop result ''kind'')]) results))"
proof -
  have nl: "nullish v = (v = JNull \<or> v = JUndefined)" for v
    by (cases v) simp_all
  have ex: "list_ex nullish xs = (JNull \<in> set xs \<or> JUndefined \<in> set xs)" for xs
    by (auto simp: list_ex_iff nl)
  have arr: "Array_isArray v = (\<exists>xs. v = JArr xs)" for v
    by (cases v) simp_all
  have el: "(\<forall>xs. v \<noteq> JArr xs) \<Longrightarrow> elements v = []" for v
    by (cases v) simp_all
  have a: "isl (searchAddress fetch query limit) =
     (trim query \<noteq> []
      \<and> (case fetch (query, limit) of
            Rejects \<Rightarrow> True
          | Responds response \<Rightarrow>
              status response < 200 \<or> 299 < status response
              \<or> (case body_json response of
                    None \<Rightarrow> True
                  | Some data \<Rightarrow>
                      data = JNull \<or> data = JUndefined
                      \<or> (\<exists>results. get_prop data ''results'' = JArr results
                             \<and> (JNull \<in> set results \<or> JUndefined \<in> set results)))))"
  proof (cases "trim query = []")
    case True
    then show ?thesis
      by (simp add: searchAddress_def)
  next
    case blank: False
    show ?thesis
    proof (cases "fetch (query, limit)")
      case Rejects
      with blank show ?thesis
        by (simp add: searchAddress_def)
    next
      case (Responds response)
      show ?thesis
      proof (cases "body_json response")
        case None
        with blank Responds show ?thesis
          by (auto simp: searchAddress_def ok_def)
      next
        case (Some data)
        show ?thesis
        proof (cases "get_prop data ''results''")
          case (JArr results)
          with blank Responds Some show ?thesis
            by (auto simp: searchAddress_def ok_def nl ex)
        qed (use blank Responds Some in \<open>auto simp: searchAddress_def ok_def nl\<close>)
      qed
    qed
  qed
  have b: "isl (searchAddress fetch query limit) \<longrightarrow>
        (\<exists>failure. searchAddress fetch query limit = Inl (FailedToSearchAddress failure))"
    by (auto simp: searchAddress_def split: fetched.splits option.splits)
  have c: "trim query = [] \<longrightarrow> searchAddress fetch query limit = Inr []"
    by (simp add: searchAddress_def)
  have d: "trim query \<noteq> [] \<and> fetch (query, limit) = Responds response
        \<and> 200 \<le> status response \<and> status response \<le> 299
        \<and> body_json response = Some data \<and> data \<noteq> JNull \<and> data \<noteq> JUndefined
        \<and> (\<forall>results. get_prop data ''results'' \<noteq> JArr results)
      \<longrightarrow> searchAddress fetch query limit = Inr []"
    by (auto simp: searchAddress_def ok_def nl arr)
  have e: "trim query \<noteq> [] \<and> fetch (query, limit) = Responds response
        \<and> 200 \<le> status response \<and> status response \<le> 299
        \<and> body_json response = Some data \<and> data \<noteq> JNull \<and> data \<noteq> JUndefined
        \<and> get_prop data ''results'' = JArr results
        \<and> JNull \<notin> set results \<and> JUndefined \<notin> set results
      \<longrightarrow> searchAddress fetch query limit =
            Inr (map (\<lambda>result.
                   JObj [(''main'', get_prop result ''fulltext''),
                         (''secondary'', if truthy (get_prop result ''kind'')
                                         then get_prop result ''kind'' else JUndefined),
                         (''coordinates'', JObj [(''lat'', get_prop result ''y''),
                                                 (''lon'', get_prop result ''x'')]),
                         (''type'', get_prop result ''kind'')]) results)"
    by (auto simp: searchAddress_def ok_def nl ex address_result_def)
  from a b c d e show ?thesis
    by blast
qed

theorem searchAddress_raises_iff_witness:
  "searchAddress failing_service ''   '' 8 = Inr []
   \<and> searchAddress plain_service ''paris'' 8 = Inr []
   \<and> searchAddress failing_service ''paris'' 8 = Inl (FailedToSearchAddress (ApiError 500))
   \<and> searchAddress paris_service ''paris'' 8 =
       Inr [JObj [(''main'', JStr ''Paris''), (''secondary'', JStr ''city''),
                  (''coordinates'', JObj [(''lat'', JNum 49), (''lon'', JNum 2)]),
                  (''type'', JStr ''city'')]]"
proof -
  have blank: "trim ''   '' = []"
    by (simp add: trim_def is_white_def)
  note T = searchAddress_raises_iff [of failing_service "''   ''" 8]
  note U = searchAddress_raises_iff
             [of plain_service "''paris''" 8 "\<lparr>status = 200, body_json = Some (JObj [(''type'', JStr ''none'')])\<rparr>"
                 "JObj [(''type'', JStr ''none'')]"]
  note V = searchAddress_raises_iff [of failing_service "''paris''" 8]
  note W = searchAddress_raises_iff
             [of paris_service "''paris''" 8
                 "\<lparr>status = 200, body_json = Some (JObj [(''results'', JArr [paris_result])])\<rparr>"
                 "JObj [(''results'', JArr [paris_result])]" "[paris_result]"]
  from T blank have a: "searchAddress failing_service ''   '' 8 = Inr []"
    by blast
  from U have b: "searchAddress plain_service ''paris'' 8 = Inr []"
    by (simp add: trim_paris plain_service_def)
  from V have "isl (searchAddress failing_service ''paris'' 8)"
    by (simp add: trim_paris failing_service_def)
  with V obtain failure where
    f: "searchAddress failing_service ''paris'' 8 = Inl (FailedToSearchAddress failure)"
    by blast
  have "searchAddress failing_service ''paris'' 8 = Inl (FailedToSearchAddress (ApiError 500))"
    by (simp add: searchAddress_def trim_paris failing_service_def ok_def)
  with f have c: "searchAddress failing_service ''paris'' 8
                    = Inl (FailedToSearchAddress (ApiError 500))"
    by simp
  from W have d: "searchAddress paris_service ''paris'' 8 =
       Inr [JObj [(''main'', JStr ''Paris''), (''secondary'', JStr ''city''),
                  (''coordinates'', JObj [(''lat'', JNum 49), (''lon'', JNum 2)]),
                  (''type'', JStr ''city'')]]"
    by (simp add: trim_paris paris_service_def paris_result_def)
  from a b c d show ?thesis by blast
qed

section \<open>Properties of the scan of the response\<close>

lemma fold_filter_skip:
  "(\<And>x acc. x \<in> set xs \<Longrightarrow> \<not> P x \<Longrightarrow> f x acc = acc) \<Longrightarrow> fold f (filter P xs) acc = fold f xs acc"
  by (induction xs arbitrary: acc) simp_all

lemma fold_preserves:
  "Q acc \<Longrightarrow> (\<And>x acc. Q acc \<Longrightarrow> Q (f x acc)) \<Longrightarrow> Q (fold f xs acc)"
  by (induction xs arbitrary: acc) simp_all

lemma addLocation_off_axis:
  "list_all off_axis results \<Longrightarrow> la \<noteq> 0 \<Longrightarrow> lo \<noteq> 0 \<Longrightarrow>
     list_all off_axis (addLocationToResults results name lo la typeValue)"
  by (simp add: addLocationToResults_def off_axis_def Let_def)

lemma nodes_off_axis:
  "list_all off_axis results \<Longrightarrow>
     list_all off_axis (processXmlNodes pf doc results path r buf)"
  unfolding processXmlNodes_def
  by (rule fold_preserves) (auto simp: Let_def truthy_number_def intro!: addLocation_off_axis
      split: option.splits)

lemma ways_off_axis:
  "list_all off_axis results \<Longrightarrow>
     list_all off_axis (processXmlWays pf doc results path r buf)"
  unfolding processXmlWays_def
  by (rule fold_preserves) (auto simp: Let_def truthy_number_def intro!: addLocation_off_axis
      split: option.splits)

lemma nodes_skip_axis:
  "processXmlNodes pf (doc\<lparr>nodes := filter (\<lambda>n. \<not> node_on_axis pf n) (nodes doc)\<rparr>) results path r buf
   = processXmlNodes pf doc results path r buf"
  unfolding processXmlNodes_def
  by (simp, rule fold_filter_skip)
     (auto simp: node_on_axis_def on_axis_def truthy_number_def Let_def)

lemma ways_skip_axis:
  "processXmlWays pf (doc\<lparr>ways := filter (\<lambda>w. \<not> way_on_axis pf w) (ways doc)\<rparr>) results path r buf
   = processXmlWays pf doc results path r buf"
  unfolding processXmlWays_def
  by (simp, rule fold_filter_skip)
     (auto simp: way_on_axis_def on_axis_def truthy_number_def Let_def split: option.splits)

text \<open>
  C9.  \<open>processXmlNodes\<close> and \<open>processXmlWays\<close> give the same results for a document and
  for the document without the nodes, and without the ways, whose parsed latitude or
  longitude is exactly 0: such a feature is dropped whatever its name, the path, the
  search distance and the buffer polygon are.  No entry of the results of a scan has a
  latitude or a longitude equal to 0.
\<close>

theorem features_on_axis_discarded:
  "processXmlNodes pf doc results path r buf
     = processXmlNodes pf (doc\<lparr>nodes := filter (\<lambda>n. \<not> node_on_axis pf n) (nodes doc)\<rparr>)
         results path r buf
   \<and> processXmlWays pf doc results path r buf
     = processXmlWays pf (doc\<lparr>ways := filter (\<lambda>w. \<not> way_on_axis pf w) (ways doc)\<rparr>)
         results path r buf
   \<and> list_all off_axis
       (processXmlWays pf doc (processXmlNodes pf doc [] path r buf) path r buf)"
  by (simp add: nodes_skip_axis ways_skip_axis nodes_off_axis ways_off_axis)

lemma example_parse:
  "parseFloat example_platform ''0'' = Some 0" "parseFloat example_platform ''1'' = Some 1"
  by (simp_all add: example_platform_def plain_platform_def)

lemma inside_example_polygon:
  "pointInPolygon (1, 0) example_polygon" "pointInPolygon (1, 1) example_polygon"
  by (simp_all add: example_polygon_def pointInPolygon_def ray_loop_edges edge_intersect_def)

lemma example_filtered:
  "filter (\<lambda>n. \<not> node_on_axis (parseFloat example_platform) n) (nodes example_document)
     = [\<lparr>node_lat = Some ''1'', node_lon = Some ''1'',
         node_tags = [(''name'', Some ''Uptown''), (''place'', Some ''town'')]\<rparr>]"
  "filter (\<lambda>w. \<not> way_on_axis (parseFloat example_platform) w) (ways example_document) = []"
  by (simp_all add: example_document_def node_on_axis_def way_on_axis_def on_axis_def
      attribute_or_zero_def example_parse)

theorem features_on_axis_discarded_witness:
  "node_on_axis (parseFloat example_platform) (nodes example_document ! 0)
   \<and> pointInPolygon (1, 0) example_polygon
   \<and> processXmlWays (parseFloat example_platform) example_document
       (processXmlNodes (parseFloat example_platform) example_document [] [] 1 (Some example_polygon))
       [] 1 (Some example_polygon)
     = [((''Uptown'', 1, 1),
         \<lparr>main = ''Uptown'', secondary = Some ''town'', coordinates = \<lparr>lat = 1, lon = 1\<rparr>,
          type = Some ''town'', elevation = None\<rparr>)]"
proof -
  note T = features_on_axis_discarded [of "parseFloat example_platform" example_document]
  have n: "processXmlNodes (parseFloat example_platform) example_document [] [] 1 (Some example_polygon)
     = [((''Uptown'', 1, 1),
         \<lparr>main = ''Uptown'', secondary = Some ''town'', coordinates = \<lparr>lat = 1, lon = 1\<rparr>,
          type = Some ''town'', elevation = None\<rparr>)]"
    apply (subst T [THEN conjunct1])
    apply (simp add: example_filtered processXmlNodes_def attribute_or_zero_def example_parse
        tag_value_def truthy_string_def truthy_number_def isLocationInSearchZone_def
        inside_example_polygon addLocationToResults_def getTypeValueFromElement_def or_else_def)
    done
  have w: "processXmlWays (parseFloat example_platform) example_document results [] 1
             (Some example_polygon) = results" for results
    apply (subst T [THEN conjunct2, THEN conjunct1])
    apply (simp add: example_filtered processXmlWays_def)
    done
  have a: "node_on_axis (parseFloat example_platform) (nodes example_document ! 0)"
    by (simp add: example_document_def node_on_axis_def on_axis_def attribute_or_zero_def
        example_parse)
  from n w a inside_example_polygon show ?thesis
    by simp
qed


section \<open>Properties of fetchElevations\<close>

lemma halves_length: "length (halves depth coords) + 1 \<le> 2 ^ depth"
proof (induction depth arbitrary: coords)
  case 0
  then show ?case by simp
next
  case (Suc depth)
  from Suc [of "take (ceil_half (length coords)) coords"]
       Suc [of "drop (ceil_half (length coords)) coords"]
  show ?case by simp
qed

lemma halves_nonempty: "list_all (\<lambda>batch. batch \<noteq> []) (halves depth coords)"
  by (induction depth arbitrary: coords) simp_all

lemma depth_warnings_length: "length (depth_warnings depth iteration coords) = length (halves depth coords)"
  by (induction depth arbitrary: iteration coords) simp_all

lemma depth_warnings_retry:
  "iteration + depth \<le> 5 \<Longrightarrow> list_all (retry_warning iteration) (depth_warnings depth iteration coords)"
proof (induction depth arbitrary: iteration coords)
  case 0
  then show ?case by simp
next
  case (Suc depth)
  have mono: "list_all (retry_warning (iteration + 1)) ws \<Longrightarrow> list_all (retry_warning iteration) ws" for ws
    by (induction ws) (auto simp: retry_warning_def split: elevation_warning.splits)
  from Suc.prems have le: "iteration + 1 + depth \<le> 5" by simp
  then have w0: "retry_warning iteration (PayloadTooLarge (iteration + 1))"
    by (simp add: retry_warning_def)
  from mono [OF Suc.IH [OF le, of "take (ceil_half (length coords)) coords"]]
       mono [OF Suc.IH [OF le, of "drop (ceil_half (length coords)) coords"]] w0
  show ?case
    by simp
qed

lemma always_413_D:
  "always_413 api \<Longrightarrow> \<exists>response. api h = Responds response \<and> elevation_status response = 413"
  unfolding always_413_def by (erule allE [of _ h]) (auto split: fetched.splits)

lemma fetchWithRetry_413:
  assumes "always_413 api" and "iteration \<le> 5"
  shows "fetchWithRetry js api coordIndex coords iteration st
           = st\<lparr>sent := sent st @ halves (5 - iteration) coords,
                console_warn := console_warn st @ depth_warnings (5 - iteration) iteration coords\<rparr>"
  using assms
proof (induction js api coordIndex coords iteration st rule: fetchWithRetry.induct)
  case (1 js api coordIndex coords iteration st)
  show ?case
  proof (cases "coords = [] \<or> iteration \<ge> 5")
    case True
    then have "fetchWithRetry js api coordIndex coords iteration st = st"
      by (subst fetchWithRetry.simps) simp
    moreover from True "1.prems"(2) have "halves (5 - iteration) coords = []"
      "depth_warnings (5 - iteration) iteration coords = []"
      by (cases "5 - iteration"; auto)+
    ultimately show ?thesis by simp
  next
    case False
    then have it: "iteration < 5" and ne: "coords \<noteq> []" by simp_all
    define st1 where "st1 = st\<lparr>sent := sent st @ [coords]\<rparr>"
    obtain response where r: "api (sent st1) = Responds response" "elevation_status response = 413"
      using always_413_D [OF "1.prems"(1)] by blast
    have nok: "\<not> ok (elevation_status response)"
      by (simp add: r ok_def)
    define st2 where "st2 = st1\<lparr>console_warn := console_warn st1 @ [PayloadTooLarge (iteration + 1)]\<rparr>"
    define mid where "mid = ceil_half (length coords)"
    define st3 where "st3 = fetchWithRetry js api coordIndex (take mid coords) (iteration + 1) st2"
    have unfold: "fetchWithRetry js api coordIndex coords iteration st
                    = fetchWithRetry js api coordIndex (drop mid coords) (iteration + 1) st3"
      using False r [unfolded st1_def] nok it
      by (subst fetchWithRetry.simps) (simp add: Let_def st1_def st2_def mid_def st3_def)
    have le: "iteration + 1 \<le> 5" using it by simp
    obtain depth where depth: "5 - iteration = Suc depth" "5 - (iteration + 1) = depth"
      using it by (cases "5 - iteration") auto
    from "1.IH"(1) [OF False st1_def r(1) nok _ st2_def mid_def refl refl "1.prems"(1) le] r it
    have h1: "st3 = st2\<lparr>sent := sent st2 @ halves depth (take mid coords),
                console_warn := console_warn st2 @ depth_warnings depth (iteration + 1) (take mid coords)\<rparr>"
      unfolding st3_def depth by simp
    from "1.IH"(2) [OF False st1_def r(1) nok _ st2_def mid_def refl refl st3_def "1.prems"(1) le] r it
    have h2: "fetchWithRetry js api coordIndex (drop mid coords) (iteration + 1) st3
           = st3\<lparr>sent := sent st3 @ halves depth (drop mid coords),
                console_warn := console_warn st3 @ depth_warnings depth (iteration + 1) (drop mid coords)\<rparr>"
      unfolding depth by simp
    from unfold h2 have "fetchWithRetry js api coordIndex coords iteration st
           = st3\<lparr>sent := sent st3 @ halves depth (drop mid coords),
                console_warn := console_warn st3 @ depth_warnings depth (iteration + 1) (drop mid coords)\<rparr>"
      by (rule trans)
    then show ?thesis
      using ne by (simp add: h1 st2_def st1_def depth(1) mid_def)
  qed
qed

text \<open>
  C1.  When every request to the elevation service is answered with the status 413,
  \<open>fetchElevations\<close> ends (it is a total function) with the empty map.  Its requests
  are those of the halving scheme of depth 5: the batch, then the requests for its first
  half, then those for its second half, and no request at depth 5.  These are at most 31
  requests, none of them for an empty batch.  Every request has written one warning,
  which names a depth of at most 5, and nothing else is written: a batch that is not
  requested because the depth has reached 5 is dropped without a message.
\<close>

theorem fetchElevations_always_too_large:
  assumes "always_413 api"
  shows "elevationMap (fetchElevations js api coordinates') = []
         \<and> sent (fetchElevations js api coordinates') = halves 5 coordinates'
         \<and> length (sent (fetchElevations js api coordinates')) \<le> 31
         \<and> list_all (\<lambda>batch. batch \<noteq> []) (sent (fetchElevations js api coordinates'))
         \<and> length (console_warn (fetchElevations js api coordinates'))
             = length (sent (fetchElevations js api coordinates'))
         \<and> list_all (retry_warning 0) (console_warn (fetchElevations js api coordinates'))"
proof -
  define coordIndex where "coordIndex =
      fold (\<lambda>(index, coord) m. AList.update (key_fixed js 6 (lat coord) (lon coord)) index m)
                    (enumerate 0 coordinates') []"
  define st0 where "st0 = \<lparr>elevationMap = [], sent = [], console_warn = []\<rparr>"
  have eq: "fetchElevations js api coordinates'
              = st0\<lparr>sent := halves 5 coordinates', console_warn := depth_warnings 5 0 coordinates'\<rparr>"
  proof (cases "coordinates' = []")
    case True
    then show ?thesis
      by (simp add: fetchElevations_def st0_def numeral_eq_Suc)
  next
    case False
    then have "fetchElevations js api coordinates' = fetchWithRetry js api coordIndex coordinates' 0 st0"
      by (simp add: fetchElevations_def coordIndex_def st0_def)
    also have "\<dots> = st0\<lparr>sent := halves 5 coordinates', console_warn := depth_warnings 5 0 coordinates'\<rparr>"
      using fetchWithRetry_413 [OF assms, of 0 js coordIndex coordinates' st0]
      by (simp add: st0_def)
    finally show ?thesis .
  qed
  have len: "length (halves 5 coordinates') \<le> 31"
    using halves_length [of 5 coordinates'] by simp
  show ?thesis
    using len halves_nonempty [of 5 coordinates'] depth_warnings_length [of 5 0 coordinates']
      depth_warnings_retry [of 0 5 coordinates']
    by (simp add: eq st0_def)
qed

lemma always_413_too_large: "always_413 too_large"
  by (simp add: always_413_def too_large_def)

theorem fetchElevations_always_too_large_witness:
  "always_413 too_large
   \<and> elevationMap (fetchElevations plain_platform too_large [\<lparr>lat = 1, lon = 1\<rparr>]) = []
   \<and> sent (fetchElevations plain_platform too_large [\<lparr>lat = 1, lon = 1\<rparr>])
       = replicate 5 [\<lparr>lat = 1, lon = 1\<rparr>]
   \<and> length (console_warn (fetchElevations plain_platform too_large [\<lparr>lat = 1, lon = 1\<rparr>])) = 5"
proof -
  note T = fetchElevations_always_too_large [OF always_413_too_large, of plain_platform
             "[\<lparr>lat = 1, lon = 1\<rparr>]"]
  have h: "halves 5 [\<lparr>lat = 1, lon = 1\<rparr>] = replicate 5 [\<lparr>lat = 1, lon = 1\<rparr>]"
    by (simp add: numeral_eq_Suc ceil_half_def)
  from T have a: "elevationMap (fetchElevations plain_platform too_large [\<lparr>lat = 1, lon = 1\<rparr>]) = []"
    by blast
  from T have b: "sent (fetchElevations plain_platform too_large [\<lparr>lat = 1, lon = 1\<rparr>])
       = halves 5 [\<lparr>lat = 1, lon = 1\<rparr>]"
    by blast
  from T have c: "length (console_warn (fetchElevations plain_platform too_large [\<lparr>lat = 1, lon = 1\<rparr>]))
       = length (sent (fetchElevations plain_platform too_large [\<lparr>lat = 1, lon = 1\<rparr>]))"
    by blast
  from a b c h always_413_too_large show ?thesis
    by simp
qed


section \<open>Properties of the request queue\<close>

lemma take_last_step:
  "0 < c \<Longrightarrow> c \<le> length xs \<Longrightarrow> take c xs = take (c - 1) xs @ [xs ! (c - 1)]"
  by (cases c) (simp_all add: take_Suc_conv_app_nth)

lemma upt_last_step: "0 < c \<Longrightarrow> [0..<c - Suc 0] @ [c - Suc 0] = [0..<c]"
  by (cases c) simp_all

lemma queue_inv_new: "queue_inv new_queue 0"
  by (simp add: queue_inv_def new_queue_def)

lemma inv_start_closure:
  assumes "c < length (added q)"
    and "queue q = drop (Suc c) (added q)"
    and "resolveStack q = [c..<length (added q)]"
    and "rejectStack q = [c..<length (added q)]"
    and "map fst (settled q) = [0..<length (settled q)]"
    and "map (fst \<circ> snd) (settled q) = take (length (settled q)) (added q)"
    and "length (settled q) = c"
    and "dispatched q = take c (added q)"
    and "drains q = [AwaitClosure]" and "isProcessing q"
  shows "queue_inv (start_closure (added q ! c) now 0 q) (Suc c)"
proof -
  have up: "[c..<length (added q)] = c # [Suc c..<length (added q)]"
    using assms(1) by (simp add: upt_conv_Cons)
  have tk: "take (Suc c) (added q) = take c (added q) @ [added q ! c]"
    using assms(1) by (simp add: take_Suc_conv_app_nth)
  show ?thesis
    using assms
    by (simp add: start_closure_def up Let_def queue_inv_def drain_ok_def dispatch_def tk)
qed

lemma inv_add:
  assumes "queue_inv q c"
  shows "\<exists>c'. queue_inv (add requestFn now q) c'"
proof -
  let ?n = "length (added q)"
  define q1 where "q1 = q\<lparr>resolveStack := resolveStack q @ [?n],
                 rejectStack := rejectStack q @ [?n],
                 queue := queue q @ [requestFn],
                 added := added q @ [requestFn]\<rparr>"
  have eq: "add requestFn now q = (if \<not> isProcessing q1 then processQueue now q1 else q1)"
    by (simp add: add_def Let_def q1_def)
  from assms have c: "c \<le> ?n" and st: "length (settled q) \<le> ?n"
    by (simp_all add: queue_inv_def)
  show ?thesis
  proof (cases "drains q")
    case Nil
    with assms have h: "\<not> isProcessing q" "c = ?n" "dispatched q = added q"
      "length (settled q) = ?n" "queue q = []" "resolveStack q = []" "rejectStack q = []"
      "map fst (settled q) = [0..<length (settled q)]"
      "map (fst \<circ> snd) (settled q) = take (length (settled q)) (added q)"
      by (simp_all add: queue_inv_def)
    define q2 where "q2 = q1\<lparr>isProcessing := True, drains := [AwaitClosure], queue := []\<rparr>"
    have "add requestFn now q = start_closure (added q2 ! ?n) now 0 q2"
      using h Nil by (simp add: eq processQueue_def loop_def q1_def q2_def)
    moreover have "queue_inv (start_closure (added q2 ! ?n) now 0 q2) (Suc ?n)"
      by (rule inv_start_closure) (use h in \<open>simp_all add: q2_def q1_def\<close>)
    ultimately show ?thesis by auto
  next
    case (Cons d ds)
    with assms have h: "ds = []" "isProcessing q" "drain_ok q c d"
      by (simp_all add: queue_inv_def)
    have "add requestFn now q = q1"
      using h by (simp add: eq q1_def)
    moreover have "queue_inv q1 c"
      using assms Cons h c st
      by (cases d) (auto simp: queue_inv_def q1_def drain_ok_def nth_append)
    ultimately show ?thesis by auto
  qed
qed

lemma inv_fire:
  assumes "queue_inv q c" and "fire e q = Some q'"
  shows "\<exists>c'. queue_inv q' c'"
proof (cases e)
  case (Add requestFn now)
  with assms inv_add [OF assms(1)] show ?thesis by auto
next
  case (TimerFires d now)
  with assms obtain requestFn res rej where d: "d < length (drains q)"
      "drains q ! d = AwaitDelay requestFn res rej" "q' = dispatch requestFn res rej now d q"
    by (auto split: if_splits drain.splits)
  with assms(1) have dr: "drains q = [AwaitDelay requestFn res rej]" "d = 0"
    by (auto simp: queue_inv_def split: list.splits)
  with assms(1) have ok: "drain_ok q c (AwaitDelay requestFn res rej)" and cn: "c \<le> length (added q)"
    by (simp_all add: queue_inv_def)
  then have tk: "take c (added q) = take (c - 1) (added q) @ [added q ! (c - 1)]"
    by (intro take_last_step) (simp_all add: drain_ok_def)
  have "queue_inv q' c"
    using assms(1) dr ok tk by (simp add: d(3) dispatch_def queue_inv_def drain_ok_def)
  then show ?thesis by auto
next
  case (TaskSettles d v)
  with assms obtain requestFn res rej where d: "d < length (drains q)"
      "drains q ! d = AwaitTask requestFn res rej"
      "q' = (case v of
               Inr result \<Rightarrow> settle res requestFn (Inr result) q
             | Inl error \<Rightarrow> settle rej requestFn (Inl (as_error error)) q)
            \<lparr>drains := (drains q)[d := AwaitClosure]\<rparr>"
    by (auto split: if_splits drain.splits)
  with assms(1) have dr: "drains q = [AwaitTask requestFn res rej]" "d = 0"
    by (auto simp: queue_inv_def split: list.splits)
  with assms(1) have ok: "drain_ok q c (AwaitTask requestFn res rej)" and cn: "c \<le> length (added q)"
    and fs: "map fst (settled q) = [0..<length (settled q)]"
    by (simp_all add: queue_inv_def)
  have fresh: "map_of (settled q) (length (settled q)) = None"
  proof -
    have "length (settled q) \<notin> set (map fst (settled q))"
      by (simp add: fs)
    then show ?thesis
      by (simp add: map_of_eq_None_iff)
  qed
  from ok have r: "res = length (settled q)" "rej = length (settled q)" "0 < c"
      "length (settled q) = c - 1" "requestFn = added q ! (c - 1)"
    by (simp_all add: drain_ok_def)
  then have tk: "take c (added q) = take (c - 1) (added q) @ [added q ! (c - 1)]"
    using cn by (intro take_last_step) simp_all
  have "queue_inv q' c"
    using assms(1) dr ok fresh r tk
    by (cases v) (simp_all add: d(3) settle_def queue_inv_def drain_ok_def upt_last_step)
  then show ?thesis by auto
next
  case (Resumes d now)
  with assms have d: "d < length (drains q)" "drains q ! d = AwaitClosure" "q' = loop now d q"
    by (auto split: if_splits drain.splits)
  with assms(1) have dr: "drains q = [AwaitClosure]" "d = 0"
    by (auto simp: queue_inv_def split: list.splits)
  show ?thesis
  proof (cases "queue q")
    case Nil
    with assms(1) have "c = length (added q)"
      by (simp add: queue_inv_def)
    with assms(1) dr Nil have "queue_inv q' c"
      by (simp add: d(3) loop_def queue_inv_def drain_ok_def)
    then show ?thesis by auto
  next
    case (Cons requestFn rest)
    with assms(1) have dq: "drop c (added q) = requestFn # rest"
      by (simp add: queue_inv_def)
    then have cl: "c < length (added q)"
      by (cases "c < length (added q)") simp_all
    with dq have rf: "requestFn = added q ! c" and rs: "rest = drop (Suc c) (added q)"
      by (metis Cons_nth_drop_Suc list.inject)+
    have "q' = start_closure (added (q\<lparr>queue := rest\<rparr>) ! c) now 0 (q\<lparr>queue := rest\<rparr>)"
      using Cons dr by (simp add: d(3) loop_def rf)
    moreover have "queue_inv (start_closure (added (q\<lparr>queue := rest\<rparr>) ! c) now 0 (q\<lparr>queue := rest\<rparr>)) (Suc c)"
      by (rule inv_start_closure)
         (use assms(1) dr cl rs in \<open>simp_all add: queue_inv_def drain_ok_def\<close>)
    ultimately show ?thesis by auto
  qed
qed

lemma inv_run:
  "queue_inv q c \<Longrightarrow> run es q = Some q' \<Longrightarrow> \<exists>c'. queue_inv q' c'"
proof (induction es arbitrary: q c)
  case Nil
  then show ?case by auto
next
  case (Cons e es)
  then obtain q1 where q1: "fire e q = Some q1" "run es q1 = Some q'"
    by (auto split: option.splits)
  from inv_fire [OF Cons.prems(1) q1(1)] obtain c1 where "queue_inv q1 c1" by blast
  from Cons.IH [OF this q1(2)] show ?case .
qed

lemma rank_update:
  "d < length ds \<Longrightarrow>
     sum_list (map drain_rank (ds[d := x])) + drain_rank (ds ! d)
       = sum_list (map drain_rank ds) + drain_rank x"
proof (induction ds arbitrary: d)
  case Nil
  then show ?case by simp
next
  case (Cons a ds)
  then show ?case
    by (cases d) (simp_all add: add.assoc add.left_commute)
qed

lemma rank_remove:
  "d < length ds \<Longrightarrow>
     sum_list (map drain_rank (take d ds @ drop (Suc d) ds)) + drain_rank (ds ! d)
       = sum_list (map drain_rank ds)"
proof (induction ds arbitrary: d)
  case Nil
  then show ?case by simp
next
  case (Cons a ds)
  then show ?case
    by (cases d) (simp_all add: add.assoc)
qed

lemma rank_le: "drain_rank x \<le> 3"
  by (cases x) simp_all

lemma remaining_start_closure:
  assumes "d < length (drains q)" and "drains q ! d = AwaitClosure"
  shows "remaining (start_closure requestFn now d q) \<le> remaining q + 2"
proof -
  have "\<exists>x. drains (start_closure requestFn now d q) = (drains q)[d := x]
            \<and> queue (start_closure requestFn now d q) = queue q"
    by (auto simp: start_closure_def Let_def dispatch_def split: list.splits)
  then obtain x where x: "drains (start_closure requestFn now d q) = (drains q)[d := x]"
      "queue (start_closure requestFn now d q) = queue q"
    by blast
  from rank_update [OF assms(1), of x] assms(2) rank_le [of x]
  show ?thesis
    by (simp add: remaining_def x)
qed

lemma remaining_decreases:
  assumes "fire e q = Some q'" and "\<not> is_Add e"
  shows "remaining q' < remaining q"
proof (cases e)
  case (Add requestFn now)
  with assms show ?thesis by simp
next
  case (TimerFires d now)
  with assms obtain requestFn res rej where d: "d < length (drains q)"
      "drains q ! d = AwaitDelay requestFn res rej" "q' = dispatch requestFn res rej now d q"
    by (auto split: if_splits drain.splits)
  from rank_update [OF d(1), of "AwaitTask requestFn res rej"] d(2)
  show ?thesis
    by (simp add: d(3) dispatch_def remaining_def)
next
  case (TaskSettles d v)
  with assms obtain requestFn res rej where d: "d < length (drains q)"
      "drains q ! d = AwaitTask requestFn res rej"
      "q' = (case v of
               Inr result \<Rightarrow> settle res requestFn (Inr result) q
             | Inl error \<Rightarrow> settle rej requestFn (Inl (as_error error)) q)
            \<lparr>drains := (drains q)[d := AwaitClosure]\<rparr>"
    by (auto split: if_splits drain.splits)
  from rank_update [OF d(1), of AwaitClosure] d(2)
  show ?thesis
    by (cases v) (simp_all add: d(3) settle_def remaining_def)
next
  case (Resumes d now)
  with assms have d: "d < length (drains q)" "drains q ! d = AwaitClosure" "q' = loop now d q"
    by (auto split: if_splits drain.splits)
  show ?thesis
  proof (cases "queue q")
    case Nil
    with rank_remove [OF d(1)] d(2) show ?thesis
      by (simp add: d(3) loop_def remaining_def)
  next
    case (Cons requestFn rest)
    have "remaining q' \<le> remaining (q\<lparr>queue := rest\<rparr>) + 2"
      using Cons d remaining_start_closure [of d "q\<lparr>queue := rest\<rparr>" requestFn now]
      by (simp add: loop_def)
    with Cons show ?thesis
      by (simp add: remaining_def)
  qed
qed

lemma drain_enabled:
  assumes "drains q \<noteq> []"
  shows "\<exists>e. \<not> is_Add e \<and> fire e q \<noteq> None"
proof (cases "drains q ! 0")
  case (AwaitDelay requestFn res rej)
  with assms have "fire (TimerFires 0 0) q \<noteq> None" by simp
  then show ?thesis by (intro exI [of _ "TimerFires 0 0"]) simp
next
  case (AwaitTask requestFn res rej)
  with assms have "fire (TaskSettles 0 (Inl (AnError []))) q \<noteq> None" by simp
  then show ?thesis by (intro exI [of _ "TaskSettles 0 (Inl (AnError []))"]) simp
next
  case AwaitClosure
  with assms have "fire (Resumes 0 0) q \<noteq> None" by simp
  then show ?thesis by (intro exI [of _ "Resumes 0 0"]) simp
qed

lemma settled_start_closure: "settled (start_closure requestFn now d q) = settled q"
  by (simp add: start_closure_def dispatch_def Let_def split: list.splits)

lemma settled_loop: "settled (loop now d q) = settled q"
  by (simp add: loop_def settled_start_closure split: list.splits)

lemma settled_add: "settled (add requestFn now q) = settled q"
  by (simp add: add_def processQueue_def settled_loop Let_def)

lemma task_in_flight:
  assumes "queue_inv q c" and "fire (TaskSettles d v) q = Some q'"
  shows "d = 0 \<and> length (settled q) < length (added q)
         \<and> drains q = [AwaitTask (added q ! length (settled q)) (length (settled q))
                         (length (settled q))]
         \<and> dispatched q = take (Suc (length (settled q))) (added q)
         \<and> settled q' = settled q @
             [(length (settled q), added q ! length (settled q),
               case v of
                 Inr result \<Rightarrow> Inr result
               | Inl (AnError message) \<Rightarrow> Inl (AnError message)
               | Inl (NotAnError text) \<Rightarrow> Inl (AnError text))]"
proof -
  from assms(2) obtain requestFn res rej where d: "d < length (drains q)"
      "drains q ! d = AwaitTask requestFn res rej"
      "q' = (case v of
               Inr result \<Rightarrow> settle res requestFn (Inr result) q
             | Inl error \<Rightarrow> settle rej requestFn (Inl (as_error error)) q)
            \<lparr>drains := (drains q)[d := AwaitClosure]\<rparr>"
    by (auto split: if_splits drain.splits)
  with assms(1) have dr: "drains q = [AwaitTask requestFn res rej]" "d = 0"
    by (auto simp: queue_inv_def split: list.splits)
  with assms(1) have ok: "drain_ok q c (AwaitTask requestFn res rej)" and cn: "c \<le> length (added q)"
    and fs: "map fst (settled q) = [0..<length (settled q)]"
    by (simp_all add: queue_inv_def)
  have fresh: "map_of (settled q) (length (settled q)) = None"
  proof -
    have "length (settled q) \<notin> set (map fst (settled q))"
      by (simp add: fs)
    then show ?thesis
      by (simp add: map_of_eq_None_iff)
  qed
  from ok have r: "res = length (settled q)" "rej = length (settled q)" "0 < c"
      "length (settled q) = c - 1" "requestFn = added q ! (c - 1)"
      "dispatched q = take c (added q)"
    by (simp_all add: drain_ok_def)
  from r cn have lt: "length (settled q) < length (added q)" and sc: "c = Suc (length (settled q))"
    by simp_all
  have st: "settled q' = settled q @
             [(length (settled q), added q ! length (settled q),
               case v of
                 Inr result \<Rightarrow> Inr result
               | Inl (AnError message) \<Rightarrow> Inl (AnError message)
               | Inl (NotAnError text) \<Rightarrow> Inl (AnError text))]"
  proof (cases v)
    case (Inl error)
    with fresh r show ?thesis
      by (cases error) (simp_all add: d(3) settle_def)
  next
    case (Inr result)
    with fresh r show ?thesis
      by (simp add: d(3) settle_def)
  qed
  have fl: "drains q = [AwaitTask (added q ! length (settled q)) (length (settled q))
                         (length (settled q))]"
    by (simp add: dr(1) r(1,2,5) sc)
  have dp: "dispatched q = take (Suc (length (settled q))) (added q)"
    by (simp add: r(6) sc)
  from dr(2) lt fl dp st show ?thesis
    by blast
qed

lemma fire_settled:
  assumes "queue_inv q c" and "fire e q = Some q'"
  shows "map (snd \<circ> snd) (settled q') =
           map (snd \<circ> snd) (settled q) @
             map (\<lambda>v. case v of
                        Inr result \<Rightarrow> Inr result
                      | Inl (AnError message) \<Rightarrow> Inl (AnError message)
                      | Inl (NotAnError text) \<Rightarrow> Inl (AnError text)) (outcomes [e])"
proof (cases e)
  case (Add requestFn now)
  with assms(2) have "q' = add requestFn now q"
    by simp
  with Add show ?thesis
    by (simp add: settled_add)
next
  case (TimerFires d now)
  with assms(2) obtain requestFn res rej where "q' = dispatch requestFn res rej now d q"
    by (auto split: if_splits drain.splits)
  with TimerFires show ?thesis
    by (simp add: dispatch_def)
next
  case (TaskSettles d v)
  with task_in_flight [OF assms(1), of d v q'] assms(2) show ?thesis
    by simp
next
  case (Resumes d now)
  with assms(2) have "q' = loop now d q"
    by (auto split: if_splits drain.splits)
  with Resumes show ?thesis
    by (simp add: settled_loop)
qed

lemma outcomes_Cons: "outcomes (e # es) = outcomes [e] @ outcomes es"
  by (cases e) simp_all

lemma run_settled:
  "queue_inv q c \<Longrightarrow> run es q = Some q' \<Longrightarrow>
     map (snd \<circ> snd) (settled q') =
       map (snd \<circ> snd) (settled q) @
         map (\<lambda>v. case v of
                    Inr result \<Rightarrow> Inr result
                  | Inl (AnError message) \<Rightarrow> Inl (AnError message)
                  | Inl (NotAnError text) \<Rightarrow> Inl (AnError text)) (outcomes es)"
proof (induction es arbitrary: q c)
  case Nil
  then show ?case by simp
next
  case (Cons e es)
  then obtain q1 where q1: "fire e q = Some q1" "run es q1 = Some q'"
    by (auto split: option.splits)
  from inv_fire [OF Cons.prems(1) q1(1)] obtain c1 where c1: "queue_inv q1 c1" by blast
  note step = fire_settled [OF Cons.prems(1) q1(1)]
  note rest = Cons.IH [OF c1 q1(2)]
  show ?case
    by (simp only: rest step outcomes_Cons [of e es] map_append append_assoc)
qed

text \<open>
  C2.  In every state that the queue reaches from the new queue by calls of \<open>add\<close> and
  the events of its drain: the tasks dispatched so far are the first tasks added, in the
  order of the calls of \<open>add\<close>; a task is dispatched only when all tasks before it have
  settled, and at most one drain runs; the promises settled so far are the promises of
  the first tasks added, in that order, each settled by the outcome of its own task.  The
  values of the settled promises are the outcomes of the tasks in the order in which the
  tasks settled: a result resolves the promise with that result, an \<open>Error\<close> rejects it
  with that error, and another value thrown rejects it with an \<open>Error\<close> made of that
  value.  A task can settle only while it is in flight, and the task in flight is the
  first task added whose promise is not settled; when it settles, its own promise is
  settled with its outcome and nothing else changes among the settled promises.  No task
  is left behind: when no drain runs, every task added has been dispatched and its
  promise is settled; while a drain runs, one of its events can happen; and every such
  event, also the rejection of a task, reduces the work that remains, so that without
  further calls of \<open>add\<close> the drain ends after finitely many events.
\<close>

theorem request_queue_fifo:
  assumes "run events new_queue = Some q"
  shows "dispatched q = take (length (dispatched q)) (added q)
         \<and> length (dispatched q) \<le> length (settled q) + 1
         \<and> length (drains q) \<le> 1
         \<and> map fst (settled q) = [0..<length (settled q)]
         \<and> map (fst \<circ> snd) (settled q) = take (length (settled q)) (added q)
         \<and> map (snd \<circ> snd) (settled q) =
             map (\<lambda>v. case v of
                        Inr result \<Rightarrow> Inr result
                      | Inl (AnError message) \<Rightarrow> Inl (AnError message)
                      | Inl (NotAnError text) \<Rightarrow> Inl (AnError text)) (outcomes events)
         \<and> (\<forall>d v q'. fire (TaskSettles d v) q = Some q' \<longrightarrow>
               length (settled q) < length (added q)
               \<and> drains q = [AwaitTask (added q ! length (settled q)) (length (settled q))
                               (length (settled q))]
               \<and> dispatched q = take (Suc (length (settled q))) (added q)
               \<and> settled q' = settled q @
                   [(length (settled q), added q ! length (settled q),
                     case v of
                       Inr result \<Rightarrow> Inr result
                     | Inl (AnError message) \<Rightarrow> Inl (AnError message)
                     | Inl (NotAnError text) \<Rightarrow> Inl (AnError text))])
         \<and> (drains q = [] \<longrightarrow> dispatched q = added q \<and> length (settled q) = length (added q))
         \<and> (drains q \<noteq> [] \<longrightarrow> (\<exists>e. \<not> is_Add e \<and> fire e q \<noteq> None))
         \<and> (\<forall>e q'. \<not> is_Add e \<and> fire e q = Some q' \<longrightarrow> remaining q' < remaining q)"
proof -
  from inv_run [OF queue_inv_new assms] obtain c where inv: "queue_inv q c" by blast
  have a: "dispatched q = take (length (dispatched q)) (added q)
           \<and> length (dispatched q) \<le> length (settled q) + 1"
  proof (cases "drains q")
    case Nil
    with inv show ?thesis by (simp add: queue_inv_def)
  next
    case (Cons d ds)
    with inv have "drain_ok q c d" and "c \<le> length (added q)"
      by (simp_all add: queue_inv_def)
    then show ?thesis
      by (cases d) (auto simp: drain_ok_def min_def)
  qed
  have b: "length (drains q) \<le> 1"
    using inv by (cases "drains q") (simp_all add: queue_inv_def)
  have c: "map fst (settled q) = [0..<length (settled q)]"
    "map (fst \<circ> snd) (settled q) = take (length (settled q)) (added q)"
    using inv by (simp_all add: queue_inv_def)
  have v: "map (snd \<circ> snd) (settled q) =
             map (\<lambda>v. case v of
                        Inr result \<Rightarrow> Inr result
                      | Inl (AnError message) \<Rightarrow> Inl (AnError message)
                      | Inl (NotAnError text) \<Rightarrow> Inl (AnError text)) (outcomes events)"
    using run_settled [OF queue_inv_new assms] by (simp add: new_queue_def)
  have t: "\<forall>d v q'. fire (TaskSettles d v) q = Some q' \<longrightarrow>
               length (settled q) < length (added q)
               \<and> drains q = [AwaitTask (added q ! length (settled q)) (length (settled q))
                               (length (settled q))]
               \<and> dispatched q = take (Suc (length (settled q))) (added q)
               \<and> settled q' = settled q @
                   [(length (settled q), added q ! length (settled q),
                     case v of
                       Inr result \<Rightarrow> Inr result
                     | Inl (AnError message) \<Rightarrow> Inl (AnError message)
                     | Inl (NotAnError text) \<Rightarrow> Inl (AnError text))]"
    using task_in_flight [OF inv] by blast
  have d: "drains q = [] \<longrightarrow> dispatched q = added q \<and> length (settled q) = length (added q)"
    using inv by (auto simp: queue_inv_def)
  have e: "drains q \<noteq> [] \<longrightarrow> (\<exists>e. \<not> is_Add e \<and> fire e q \<noteq> None)"
    using drain_enabled [of q] by blast
  have f: "\<forall>e q'. \<not> is_Add e \<and> fire e q = Some q' \<longrightarrow> remaining q' < remaining q"
    using remaining_decreases by blast
  from a b c v t d e f show ?thesis by blast
qed

lemma example_run: "run example_events new_queue = Some example_final"
  by (simp add: example_events_def example_final_def new_queue_def add_def processQueue_def
      loop_def start_closure_def dispatch_def settle_def minDelayMs_def Let_def)

lemma example_prefix:
  "run [Add ''first'' 1000, Add ''second'' 1001] new_queue = Some example_middle"
  by (simp add: example_middle_def new_queue_def add_def processQueue_def
      loop_def start_closure_def dispatch_def minDelayMs_def Let_def)

theorem request_queue_fifo_witness:
  "run example_events new_queue = Some example_final
   \<and> dispatched example_final = [''first'', ''second'']
   \<and> settled example_final = [(0, ''first'', Inl (AnError ''boom'')), (1, ''second'', Inr 7)]
   \<and> dispatched example_final = take (length (dispatched example_final)) (added example_final)
   \<and> map (fst \<circ> snd) (settled example_final)
       = take (length (settled example_final)) (added example_final)
   \<and> map (snd \<circ> snd) (settled example_final) = [Inl (AnError ''boom''), Inr 7]
   \<and> outcomes example_events = [Inl (NotAnError ''boom''), Inr 7]
   \<and> length (settled example_final) = length (added example_final)
   \<and> (\<exists>q'. fire (TaskSettles 0 (Inl (NotAnError ''boom''))) example_middle = Some q'
          \<and> settled q' = [(0, ''first'', Inl (AnError ''boom''))])"
proof -
  have a: "run example_events new_queue = Some example_final
   \<and> dispatched example_final = [''first'', ''second'']
   \<and> settled example_final = [(0, ''first'', Inl (AnError ''boom'')), (1, ''second'', Inr 7)]
   \<and> dispatched example_final = take (length (dispatched example_final)) (added example_final)
   \<and> map (fst \<circ> snd) (settled example_final)
       = take (length (settled example_final)) (added example_final)
   \<and> map (snd \<circ> snd) (settled example_final) = [Inl (AnError ''boom''), Inr 7]
   \<and> outcomes example_events = [Inl (NotAnError ''boom''), Inr 7]
   \<and> length (settled example_final) = length (added example_final)"
    using request_queue_fifo [OF example_run] example_run
    by (simp add: example_final_def example_events_def)
  obtain q' where q': "fire (TaskSettles 0 (Inl (NotAnError ''boom''))) example_middle = Some q'"
    by (simp add: example_middle_def)
  from request_queue_fifo [OF example_prefix]
  have "\<forall>d v q'. fire (TaskSettles d v) example_middle = Some q' \<longrightarrow>
          settled q' = settled example_middle @
            [(length (settled example_middle),
              added example_middle ! length (settled example_middle),
              case v of
                Inr result \<Rightarrow> Inr result
              | Inl (AnError message) \<Rightarrow> Inl (AnError message)
              | Inl (NotAnError text) \<Rightarrow> Inl (AnError text))]"
    by blast
  with q' have "settled q' = settled example_middle @
          [(length (settled example_middle), added example_middle ! length (settled example_middle),
            Inl (AnError ''boom''))]"
    by fastforce
  then have "settled q' = [(0, ''first'', Inl (AnError ''boom''))]"
    by (simp add: example_middle_def)
  with q' a show ?thesis
    by blast
qed

section \<open>Properties of searchLocationsNearPath\<close>

lemma start_closure_added: "added (start_closure t now d q) = added q"
  by (simp add: start_closure_def Let_def dispatch_def split: list.splits)

lemma fire_added:
  assumes "fire e q = Some q'" and "\<not> is_Add e"
  shows "added q' = added q"
proof (cases e)
  case (Add requestFn now)
  with assms show ?thesis by simp
next
  case (TimerFires d now)
  with assms show ?thesis
    by (auto simp: dispatch_def split: if_splits drain.splits)
next
  case (TaskSettles d v)
  with assms show ?thesis
    by (cases v) (auto simp: settle_def split: if_splits drain.splits)
next
  case (Resumes d now)
  from Resumes assms show ?thesis
    by (auto simp: loop_def start_closure_added split: if_splits drain.splits list.splits)
qed

lemma drive_added: "added (requestQueue (drive n sv w)) = added (requestQueue w)"
proof (induction n arbitrary: w)
  case 0
  then show ?case by simp
next
  case (Suc n)
  show ?case
  proof (cases "drains (requestQueue w)")
    case Nil
    then show ?thesis by simp
  next
    case (Cons d ds)
    show ?thesis
    proof (cases d)
      case (AwaitDelay query res rej)
      let ?now = "max (clock w) (lastRequestTime (requestQueue w) + minDelayMs)"
      show ?thesis
      proof (cases "fire (TimerFires 0 ?now) (requestQueue w)")
        case None
        with Cons AwaitDelay show ?thesis by (simp add: Let_def del: fire.simps)
      next
        case (Some q)
        from fire_added [OF Some] have "added q = added (requestQueue w)" by simp
        with Cons AwaitDelay Some show ?thesis
          by (simp add: Let_def Suc del: fire.simps)
      qed
    next
      case (AwaitTask query res rej)
      show ?thesis
      proof (cases "fire (TaskSettles 0 (overpass_task sv query)) (requestQueue w)")
        case None
        with Cons AwaitTask show ?thesis by (simp del: fire.simps)
      next
        case (Some q)
        from fire_added [OF Some] have "added q = added (requestQueue w)" by simp
        with Cons AwaitTask Some show ?thesis
          by (simp add: Suc del: fire.simps)
      qed
    next
      case AwaitClosure
      show ?thesis
      proof (cases "fire (Resumes 0 (clock w)) (requestQueue w)")
        case None
        with Cons AwaitClosure show ?thesis by (simp del: fire.simps)
      next
        case (Some q)
        from fire_added [OF Some] have "added q = added (requestQueue w)" by simp
        with Cons AwaitClosure Some show ?thesis
          by (simp add: Suc del: fire.simps)
      qed
    qed
  qed
qed

lemma add_added: "added (add t now q) = added q @ [t]"
  by (simp add: add_def processQueue_def loop_def start_closure_added Let_def split: list.splits)

lemma await_add_added:
  "added (requestQueue (snd (await_add sv query w))) = added (requestQueue w) @ [query]"
proof -
  define w2 where "w2 = drive (remaining (requestQueue (w\<lparr>requestQueue := add query (clock w) (requestQueue w)\<rparr>))) sv
          (w\<lparr>requestQueue := add query (clock w) (requestQueue w)\<rparr>)"
  have "snd (await_add sv query w) = w2"
    by (simp add: await_add_def Let_def w2_def split: option.splits sum.splits prod.splits)
  then show ?thesis
    by (simp add: w2_def drive_added add_added)
qed

lemma searchLocationsNearPath_queue:
  assumes "pathPoints \<noteq> []"
  shows "requestQueue (snd (searchLocationsNearPath js sv (Some pathPoints) searchDistanceKm
                              bufferPolygon w))
         = requestQueue (snd (await_add sv (build_query pathPoints searchDistanceKm) w))"
proof -
  obtain c w1 where aw: "await_add sv (build_query pathPoints searchDistanceKm) w = (c, w1)"
    by (cases "await_add sv (build_query pathPoints searchDistanceKm) w") auto
  have sc: "requestQueue (snd (scan_response js response pathPoints searchDistanceKm bufferPolygon w1))
              = requestQueue w1" for response
    by (simp add: scan_response_def split: option.splits)
  have el: "requestQueue (snd (with_elevations js sv rs w2)) = requestQueue w2" for rs w2
    by (simp add: with_elevations_def Let_def)
  show ?thesis
  proof (cases c)
    case (Returns response)
    obtain results w2 where s2:
        "scan_response js response pathPoints searchDistanceKm bufferPolygon w1 = (results, w2)"
      by (cases "scan_response js response pathPoints searchDistanceKm bufferPolygon w1") auto
    obtain resultArray w3 where s3: "with_elevations js sv (map snd results) w2 = (resultArray, w3)"
      by (cases "with_elevations js sv (map snd results) w2") auto
    from sc [of response] s2 have "requestQueue w2 = requestQueue w1" by simp
    moreover from el [of "map snd results" w2] s3 have "requestQueue w3 = requestQueue w2" by simp
    ultimately show ?thesis
      using assms aw Returns s2 s3 by (simp add: searchLocationsNearPath_def)
  next
    case (Throws error)
    with assms aw show ?thesis by (simp add: searchLocationsNearPath_def)
  next
    case Pending
    with assms aw show ?thesis by (simp add: searchLocationsNearPath_def)
  qed
qed

lemma searchLocationsNearPath_queues_request:
  assumes "pathPoints \<noteq> []"
  shows "added (requestQueue (snd (searchLocationsNearPath js sv (Some pathPoints)
                     searchDistanceKm bufferPolygon w)))
         = added (requestQueue w) @ [build_query pathPoints searchDistanceKm]"
  by (simp add: searchLocationsNearPath_queue [OF assms] await_add_added)


lemma example_await:
  "await_add example_services query new_world
     = (Returns \<lparr>response_text = Some ''osm''\<rparr>,
        new_world\<lparr>requestQueue :=
          \<lparr>queue = [], isProcessing = False, lastRequestTime = 1000, resolveStack = [],
           rejectStack = [], drains = [], added = [query], dispatched = [query],
           settled = [(0, query, Inr \<lparr>response_text = Some ''osm''\<rparr>)]\<rparr>\<rparr>)"
  by (simp add: await_add_def new_world_def new_queue_def add_def processQueue_def loop_def
      start_closure_def dispatch_def settle_def minDelayMs_def Let_def remaining_def
      numeral_eq_Suc overpass_task_def example_services_def)

lemma example_scan:
  "scan_response example_platform \<lparr>response_text = Some ''osm''\<rparr> [\<lparr>lat = 1, lon = 1\<rparr>] 1
     (Some example_polygon) w
   = ([((''Uptown'', 1, 1),
         \<lparr>main = ''Uptown'', secondary = Some ''town'', coordinates = \<lparr>lat = 1, lon = 1\<rparr>,
          type = Some ''town'', elevation = None\<rparr>)], w)"
  by (simp add: scan_response_def example_platform_def plain_platform_def example_document_def
        processXmlNodes_def processXmlWays_def attribute_or_zero_def
        tag_value_def truthy_string_def truthy_number_def isLocationInSearchZone_def
        inside_example_polygon addLocationToResults_def getTypeValueFromElement_def or_else_def)

lemma example_search:
  "searchLocationsNearPath example_platform example_services (Some [\<lparr>lat = 1, lon = 1\<rparr>]) 1
     (Some example_polygon) new_world
   = (Returns [\<lparr>main = ''Uptown'', secondary = Some ''town'', coordinates = \<lparr>lat = 1, lon = 1\<rparr>,
                 type = Some ''town'', elevation = None\<rparr>],
      new_world\<lparr>requestQueue :=
          \<lparr>queue = [], isProcessing = False, lastRequestTime = 1000, resolveStack = [],
           rejectStack = [], drains = [],
           added = [build_query [\<lparr>lat = 1, lon = 1\<rparr>] 1],
           dispatched = [build_query [\<lparr>lat = 1, lon = 1\<rparr>] 1],
           settled = [(0, build_query [\<lparr>lat = 1, lon = 1\<rparr>] 1, Inr \<lparr>response_text = Some ''osm''\<rparr>)]\<rparr>,
        elevation_requests := replicate 5 [\<lparr>lat = 1, lon = 1\<rparr>],
        console_warnings := map PayloadTooLarge [1, 2, 3, 4, 5]\<rparr>)"
proof -
  have el: "fetchElevations example_platform too_large [\<lparr>lat = 1, lon = 1\<rparr>]
     = \<lparr>elevationMap = [], sent = replicate 5 [\<lparr>lat = 1, lon = 1\<rparr>],
        console_warn = map PayloadTooLarge [1, 2, 3, 4, 5]\<rparr>"
    by (simp add: fetchElevations_def fetchWithRetry.simps too_large_def ok_def ceil_half_def
      numeral_eq_Suc Let_def)
  show ?thesis
    apply (simp add: searchLocationsNearPath_def example_await example_scan)
    apply (simp add: with_elevations_def el example_services_def attach_elevation_def Let_def
        new_world_def)
    done
qed

lemma remaining_zero: "remaining q = 0 \<Longrightarrow> drains q = []"
proof (cases "drains q")
  case Nil
  then show ?thesis by simp
next
  case (Cons d ds)
  assume "remaining q = 0"
  with Cons show ?thesis
    by (cases d) (simp_all add: remaining_def)
qed

lemma drive_quiescent:
  "remaining (requestQueue w) \<le> n \<Longrightarrow> queue_inv (requestQueue w) c \<Longrightarrow>
     drains (requestQueue (drive n sv w)) = []
     \<and> (\<exists>c'. queue_inv (requestQueue (drive n sv w)) c')"
proof (induction n arbitrary: w c)
  case 0
  then show ?case
    by (auto simp: remaining_zero)
next
  case (Suc n)
  let ?q = "requestQueue w"
  show ?case
  proof (cases "drains ?q")
    case Nil
    with Suc.prems show ?thesis by auto
  next
    case (Cons d ds)
    have step: "fire e ?q = Some (requestQueue w') \<Longrightarrow> \<not> is_Add e \<Longrightarrow>
             drains (requestQueue (drive n sv w')) = []
             \<and> (\<exists>c'. queue_inv (requestQueue (drive n sv w')) c')"
      for e w'
    proof -
      assume f: "fire e ?q = Some (requestQueue w')" and na: "\<not> is_Add e"
      from remaining_decreases [OF f na] Suc.prems(1) have "remaining (requestQueue w') \<le> n" by simp
      moreover from inv_fire [OF Suc.prems(2) f] obtain c' where "queue_inv (requestQueue w') c'"
        by blast
      ultimately show ?thesis
        using Suc.IH [of w' c'] by simp
    qed
    show ?thesis
    proof (cases d)
      case (AwaitDelay query res rej)
      let ?now = "max (clock w) (lastRequestTime ?q + minDelayMs)"
      from Cons AwaitDelay obtain q' where f: "fire (TimerFires 0 ?now) ?q = Some q'"
        by simp
      have eq: "drive (Suc n) sv w = drive n sv (w\<lparr>requestQueue := q', clock := ?now\<rparr>)"
        using Cons AwaitDelay f by (simp add: Let_def del: fire.simps)
      from step [of "TimerFires 0 ?now" "w\<lparr>requestQueue := q', clock := ?now\<rparr>"] f
      show ?thesis
        unfolding eq by simp
    next
      case (AwaitTask query res rej)
      from Cons AwaitTask obtain q' where f: "fire (TaskSettles 0 (overpass_task sv query)) ?q = Some q'"
        by simp
      let ?w = "w\<lparr>requestQueue := q',
                   console_error := console_error w
                     @ (if isl (overpass_task sv query) then [ErrorInOverpassSearch] else [])\<rparr>"
      have eq: "drive (Suc n) sv w = drive n sv ?w"
        using Cons AwaitTask f by (simp del: fire.simps)
      from step [of "TaskSettles 0 (overpass_task sv query)" ?w] f
      show ?thesis
        unfolding eq by simp
    next
      case AwaitClosure
      from Cons AwaitClosure obtain q' where f: "fire (Resumes 0 (clock w)) ?q = Some q'"
        by simp
      have eq: "drive (Suc n) sv w = drive n sv (w\<lparr>requestQueue := q'\<rparr>)"
        using Cons AwaitClosure f by (simp del: fire.simps)
      from step [of "Resumes 0 (clock w)" "w\<lparr>requestQueue := q'\<rparr>"] f
      show ?thesis
        unfolding eq by simp
    qed
  qed
qed

lemma await_add_settles:
  assumes "queue_inv (requestQueue w) c"
  shows "fst (await_add sv query w) \<noteq> Pending"
proof -
  define w1 where "w1 = w\<lparr>requestQueue := add query (clock w) (requestQueue w)\<rparr>"
  define w2 where "w2 = drive (remaining (requestQueue w1)) sv w1"
  from inv_add [OF assms, of query "clock w"] obtain c1 where "queue_inv (requestQueue w1) c1"
    by (auto simp: w1_def)
  from drive_quiescent [OF order_refl this, of sv] obtain c2 where
    q: "drains (requestQueue w2) = []" "queue_inv (requestQueue w2) c2"
    by (auto simp: w2_def)
  have ad: "added (requestQueue w2) = added (requestQueue w) @ [query]"
    by (simp add: w2_def w1_def drive_added add_added)
  from q have "map fst (settled (requestQueue w2)) = [0..<length (added (requestQueue w2))]"
    by (simp add: queue_inv_def)
  then have "length (added (requestQueue w)) \<in> set (map fst (settled (requestQueue w2)))"
    by (simp add: ad)
  then have "map_of (settled (requestQueue w2)) (length (added (requestQueue w))) \<noteq> None"
    by (simp add: map_of_eq_None_iff)
  then show ?thesis
    by (auto simp: await_add_def Let_def w1_def [symmetric] w2_def [symmetric]
        split: option.splits sum.splits prod.splits)
qed

lemma searchLocationsNearPath_completes:
  assumes "queue_inv (requestQueue w) c"
  shows "fst (searchLocationsNearPath js sv pathPoints' searchDistanceKm bufferPolygon w) \<noteq> Pending"
proof (cases pathPoints')
  case None
  then show ?thesis by (simp add: searchLocationsNearPath_def)
next
  case (Some pathPoints)
  show ?thesis
  proof (cases "pathPoints = []")
    case True
    with Some show ?thesis by (simp add: searchLocationsNearPath_def)
  next
    case False
    obtain r w1 where aw: "await_add sv (build_query pathPoints searchDistanceKm) w = (r, w1)"
      by (cases "await_add sv (build_query pathPoints searchDistanceKm) w") auto
    with await_add_settles [OF assms, of sv "build_query pathPoints searchDistanceKm"]
    have "r \<noteq> Pending" by simp
    with Some False aw show ?thesis
      by (cases r) (simp_all add: searchLocationsNearPath_def Let_def split: prod.splits)
  qed
qed

text \<open>
  C10.  Called without a path or with a path of no points, \<open>searchLocationsNearPath\<close>
  returns the empty list and leaves the world as it was: nothing is added to the request
  queue, no request goes to a service, nothing is thrown.  (With a path of at least one
  point it adds one request to the queue, see \<open>searchLocationsNearPath_queues_request\<close>.)
\<close>

theorem searchLocationsNearPath_empty_path:
  "searchLocationsNearPath js sv None searchDistanceKm bufferPolygon w = (Returns [], w)
   \<and> searchLocationsNearPath js sv (Some []) searchDistanceKm bufferPolygon w = (Returns [], w)"
  by (simp add: searchLocationsNearPath_def)



end
